theory Spec2Isabelle
  imports Main "HOL-Library.AList"
begin

section \<open>JavaScript values\<close>

text \<open>
  The values that travel through \<^verbatim>\<open>src/api/eth.js\<close> are the data a JSON-RPC transport
  delivers (null, booleans, numbers, strings, arrays, objects) together with the two
  values only JavaScript produces: \<^verbatim>\<open>undefined\<close> (an absent property) and
  \<^verbatim>\<open>NaN\<close> (a failed \<^verbatim>\<open>parseInt\<close>).

  Numbers are integers of unbounded size; JavaScript's doubles agree with them below
  \<open>2^53\<close>, which covers every block number and timestamp. Strings are byte strings.
  An object is the list of its own properties in enumeration order, each key once;
  \<open>map_of\<close> reads it. The response of the transport is a tree: no object or array
  occurs at two positions, as after \<^verbatim>\<open>JSON.parse\<close>, so that the in-place updates of the
  source are updates of values.
\<close>

datatype jsval =
    Undefined
  | Null
  | Bool bool
  | Num int
  | NaN
  | Str string
  | Arr "jsval list"
  | Obj "(string \<times> jsval) list"

text \<open>
  A throw of the source is a value: \<open>TypeError\<close> is raised by the engine (a property
  read on \<^verbatim>\<open>undefined\<close> or \<^verbatim>\<open>null\<close>, a call of something that is not a function, a
  failed conversion to a string), \<open>Thrown s\<close> is the source's \<^verbatim>\<open>throw\<close> of the string
  \<open>s\<close>, and \<open>Rejected s\<close> is a rejection that comes from the transport or a helper.
\<close>

datatype error = TypeError | Thrown string | Rejected string

definition and_then :: "error + 'a \<Rightarrow> ('a \<Rightarrow> error + 'b) \<Rightarrow> error + 'b" where
  "and_then r f = (case r of Inl e \<Rightarrow> Inl e | Inr x \<Rightarrow> f x)"

fun map_result :: "('a \<Rightarrow> error + 'b) \<Rightarrow> 'a list \<Rightarrow> error + 'b list" where
  "map_result f [] = Inr []"
| "map_result f (x # xs) =
     and_then (f x) (\<lambda>y. and_then (map_result f xs) (\<lambda>ys. Inr (y # ys)))"

subsection \<open>Number to string\<close>

definition digit_char :: "nat \<Rightarrow> char" where
  "digit_char d = ''0123456789abcdefghijklmnopqrstuvwxyz'' ! d"

function radix_digits :: "nat \<Rightarrow> nat \<Rightarrow> string" where
  "radix_digits b n =
     (if b < 2 \<or> n < b then [digit_char n]
      else radix_digits b (n div b) @ [digit_char (n mod b)])"
  by pat_completeness auto
termination
  by (relation "measure snd") auto

text \<open>
  \<^verbatim>\<open>Number.prototype.toString(radix)\<close> on an integer, for a radix from 2 to 36 (the
  program uses 16, the conversion of a number to a string uses 10).
\<close>

definition number_toString :: "nat \<Rightarrow> int \<Rightarrow> string" where
  "number_toString radix i =
     (if i < 0 then CHR ''-'' # radix_digits radix (nat (- i))
      else radix_digits radix (nat i))"

subsection \<open>Conversion to a string\<close>

text \<open>
  \<^verbatim>\<open>ToString\<close> of the language: an array joins its elements with commas, writing
  nothing for \<^verbatim>\<open>undefined\<close> and \<^verbatim>\<open>null\<close>; an object from JSON has no callable
  \<^verbatim>\<open>toString\<close> of its own, so either it inherits the built-in one or, when it has an
  own property of that name, the conversion throws.
\<close>

fun to_string :: "jsval \<Rightarrow> error + string"
  and join_elems :: "jsval list \<Rightarrow> error + string" where
  "to_string Undefined = Inr ''undefined''"
| "to_string Null = Inr ''null''"
| "to_string (Bool b) = Inr (if b then ''true'' else ''false'')"
| "to_string (Num n) = Inr (number_toString 10 n)"
| "to_string NaN = Inr ''NaN''"
| "to_string (Str s) = Inr s"
| "to_string (Arr xs) = join_elems xs"
| "to_string (Obj fs) =
     (if ''toString'' \<in> set (map fst fs) then Inl TypeError else Inr ''[object Object]'')"
| "join_elems [] = Inr []"
| "join_elems (x # xs) =
     and_then (if x = Undefined \<or> x = Null then Inr [] else to_string x) (\<lambda>s.
       if xs = [] then Inr s
       else and_then (join_elems xs) (\<lambda>r. Inr (s @ '','' @ r)))"

fun typeof :: "jsval \<Rightarrow> string" where
  "typeof Undefined = ''undefined''"
| "typeof (Bool b) = ''boolean''"
| "typeof (Num n) = ''number''"
| "typeof NaN = ''number''"
| "typeof (Str s) = ''string''"
| "typeof v = ''object''"

subsection \<open>parseInt\<close>

definition is_space :: "char \<Rightarrow> bool" where
  "is_space c = (c \<in> set [CHR 0x09, CHR 0x0A, CHR 0x0B, CHR 0x0C, CHR 0x0D, CHR 0x20])"

definition digit_value :: "char \<Rightarrow> nat option" where
  "digit_value c =
     (let k = (of_char c :: nat) in
      if 48 \<le> k \<and> k \<le> 57 then Some (k - 48)
      else if 97 \<le> k \<and> k \<le> 122 then Some (k - 87)
      else if 65 \<le> k \<and> k \<le> 90 then Some (k - 55)
      else None)"

definition is_digit :: "nat \<Rightarrow> char \<Rightarrow> bool" where
  "is_digit radix c = (case digit_value c of Some d \<Rightarrow> d < radix | None \<Rightarrow> False)"

definition digits_value :: "nat \<Rightarrow> string \<Rightarrow> nat" where
  "digits_value radix z =
     foldl (\<lambda>a c. a * radix + (case digit_value c of Some d \<Rightarrow> d | None \<Rightarrow> 0)) 0 z"

text \<open>
  \<^verbatim>\<open>parseInt(input, radix)\<close> for a radix given as a number: the input is converted to a
  string, leading white space (of the ASCII range, strings being byte strings) and one
  sign are removed, with radix 16 a prefix \<^verbatim>\<open>0x\<close> or \<^verbatim>\<open>0X\<close> is removed, and the longest
  prefix of digits is read; no digit at all is \<^verbatim>\<open>NaN\<close>.
\<close>

definition parseInt :: "jsval \<Rightarrow> nat \<Rightarrow> error + jsval" where
  "parseInt v radix =
     and_then (to_string v) (\<lambda>input.
       let s = dropWhile is_space input;
           sign = (if take 1 s = ''-'' then - 1 else 1 :: int);
           s1 = (if take 1 s = ''-'' \<or> take 1 s = ''+'' then drop 1 s else s);
           s2 = (if radix = 16 \<and> (take 2 s1 = ''0x'' \<or> take 2 s1 = ''0X'')
                 then drop 2 s1 else s1);
           z = takeWhile (is_digit radix) s2
       in if radix < 2 \<or> 36 < radix \<or> z = [] then Inr NaN
          else Inr (Num (sign * int (digits_value radix z))))"

definition parseInt16 :: "jsval \<Rightarrow> error + jsval" where
  "parseInt16 v = parseInt v 16"

subsection \<open>Properties, equality, truthiness\<close>

text \<open>
  Reading a property of \<^verbatim>\<open>undefined\<close> or \<^verbatim>\<open>null\<close> throws; an object yields its own
  property or \<^verbatim>\<open>undefined\<close>; every other value yields \<^verbatim>\<open>undefined\<close>. This holds for
  the names the program reads (\<^verbatim>\<open>result\<close>, \<^verbatim>\<open>number\<close>, \<^verbatim>\<open>timestamp\<close>, \<^verbatim>\<open>hash\<close>,
  \<^verbatim>\<open>logs\<close>, \<^verbatim>\<open>blockNumber\<close>, \<^verbatim>\<open>blockHash\<close>), none of which is a built-in property.
\<close>

fun get_prop :: "jsval \<Rightarrow> string \<Rightarrow> error + jsval" where
  "get_prop Undefined k = Inl TypeError"
| "get_prop Null k = Inl TypeError"
| "get_prop (Obj fs) k = Inr (case map_of fs k of Some v \<Rightarrow> v | None \<Rightarrow> Undefined)"
| "get_prop v k = Inr Undefined"

text \<open>
  \<^verbatim>\<open>a === b\<close>. Two objects or arrays are equal only when they are the same object, and
  two positions of the response tree never are.
\<close>

fun strict_eq :: "jsval \<Rightarrow> jsval \<Rightarrow> bool" where
  "strict_eq Undefined Undefined = True"
| "strict_eq Null Null = True"
| "strict_eq (Bool a) (Bool b) = (a = b)"
| "strict_eq (Num a) (Num b) = (a = b)"
| "strict_eq (Str a) (Str b) = (a = b)"
| "strict_eq a b = False"

fun truthy :: "jsval \<Rightarrow> bool" where
  "truthy Undefined = False"
| "truthy Null = False"
| "truthy (Bool b) = b"
| "truthy (Num n) = (n \<noteq> 0)"
| "truthy NaN = False"
| "truthy (Str s) = (s \<noteq> [])"
| "truthy (Arr xs) = True"
| "truthy (Obj fs) = True"

text \<open>\<^verbatim>\<open>a - b\<close> where \<open>a\<close> is a result of \<^verbatim>\<open>parseInt\<close> and \<open>b\<close> an integer.\<close>

fun minus_number :: "jsval \<Rightarrow> int \<Rightarrow> jsval" where
  "minus_number (Num a) b = Num (a - b)"
| "minus_number v b = NaN"

text \<open>
  \<^verbatim>\<open>xs[index]\<close> on an array: the position read, or \<open>None\<close> where the array has no such
  element and the read yields \<^verbatim>\<open>undefined\<close>.
\<close>

fun array_slot :: "'a list \<Rightarrow> jsval \<Rightarrow> nat option" where
  "array_slot xs (Num i) = (if 0 \<le> i \<and> nat i < length xs then Some (nat i) else None)"
| "array_slot xs v = None"

subsection \<open>Objects under assignment\<close>

text \<open>
  \<^verbatim>\<open>Object.assign(target, source)\<close> returns the target converted to an object: a plain
  object stays itself (\<open>Plain\<close>); any other value except \<^verbatim>\<open>undefined\<close> and \<^verbatim>\<open>null\<close>
  becomes its wrapper object, or is the array itself (\<open>Wrapper\<close>, with the properties
  assigned to it). Assigning a property keeps the place of an existing key and adds a
  new key at the end.
\<close>

datatype jsobject =
    Plain "(string \<times> jsval) list"
  | Wrapper jsval "(string \<times> jsval) list"

fun own_props :: "jsobject \<Rightarrow> (string \<times> jsval) list" where
  "own_props (Plain fs) = fs"
| "own_props (Wrapper v fs) = fs"

definition obj_get :: "jsobject \<Rightarrow> string \<Rightarrow> jsval" where
  "obj_get b k = (case map_of (own_props b) k of Some v \<Rightarrow> v | None \<Rightarrow> Undefined)"

fun obj_set :: "jsobject \<Rightarrow> string \<Rightarrow> jsval \<Rightarrow> jsobject" where
  "obj_set (Plain fs) k v = Plain (AList.update k v fs)"
| "obj_set (Wrapper w fs) k v = Wrapper w (AList.update k v fs)"

fun to_object :: "jsval \<Rightarrow> error + jsobject" where
  "to_object Undefined = Inl TypeError"
| "to_object Null = Inl TypeError"
| "to_object (Obj fs) = Inr (Plain fs)"
| "to_object v = Inr (Wrapper v [])"

definition object_assign :: "jsval \<Rightarrow> (string \<times> jsval) list \<Rightarrow> error + jsobject" where
  "object_assign target source =
     and_then (to_object target) (\<lambda>to. Inr (foldl (\<lambda>b (k, v). obj_set b k v) to source))"

section \<open>The transport\<close>

text \<open>
  The \<^verbatim>\<open>Eth\<close> object copies three properties of the command object it is built from:
  \<^verbatim>\<open>client\<close>, whose \<^verbatim>\<open>request(method, params, undefined, false)\<close> only builds a request,
  \<^verbatim>\<open>rpc(method, params)\<close>, which sends one call and resolves to its result, and
  \<^verbatim>\<open>request(batch)\<close>, which sends a batch and resolves to the array of responses (the
  field \<open>send_batch\<close> below). None of them is defined in this repository: the two sending
  functions are parameters, a rejected promise is their result \<open>Inl\<close>, and an operation
  returns its outcome together with the calls it has sent.
\<close>

record request =
  req_method :: string
  req_params :: "jsval list"

definition client_request :: "string \<Rightarrow> jsval list \<Rightarrow> request" where
  "client_request m ps = \<lparr>req_method = m, req_params = ps\<rparr>"

datatype rpc_call = Rpc string "jsval list" | Batch "request list"

record eth =
  rpc :: "string \<Rightarrow> jsval list \<Rightarrow> error + jsval"
  send_batch :: "request list \<Rightarrow> error + jsval list"

section \<open>The operations of \<^verbatim>\<open>src/api/eth.js\<close>\<close>

definition formatLogOptions :: "int \<Rightarrow> int \<Rightarrow> jsval" where
  "formatLogOptions fromBlock toBlock =
     Obj [(''fromBlock'', Str (''0x'' @ number_toString 16 fromBlock)),
          (''toBlock'', Str (''0x'' @ number_toString 16 toBlock))]"

subsection \<open>call\<close>

text \<open>
  \<^verbatim>\<open>utils.isHex\<close> and \<^verbatim>\<open>utils.encodeTxData\<close> live in \<^verbatim>\<open>lib/helpers\<close>, outside of the
  file; they are the parameters \<open>isHex\<close> and \<open>encodeTxData\<close>. An argument that is
  \<^verbatim>\<open>undefined\<close> takes its default value.
\<close>

definition call ::
  "(jsval \<Rightarrow> bool) \<Rightarrow> (jsval \<Rightarrow> jsval \<Rightarrow> error + jsval) \<Rightarrow> eth \<Rightarrow>
   jsval \<Rightarrow> jsval \<Rightarrow> jsval \<Rightarrow> jsval \<Rightarrow> (error + jsval) \<times> rpc_call list" where
  "call isHex encodeTxData this methodSignature to args0 blockNumber0 =
     (let args = (if args0 = Undefined then Arr [] else args0);
          blockNumber = (if blockNumber0 = Undefined then Str ''latest'' else blockNumber0)
      in if \<not> strict_eq blockNumber (Str ''latest'') \<and> \<not> isHex blockNumber then
           (and_then (to_string blockNumber) (\<lambda>s.
              Inl (Thrown (''Expected hex, got: '' @ s @ '' (type '' @ typeof blockNumber @ '')''))),
            [])
         else
           (case encodeTxData methodSignature args of
              Inl e \<Rightarrow> (Inl e, [])
            | Inr data \<Rightarrow>
                (rpc this ''eth_call'' [Obj [(''to'', to), (''data'', data)], blockNumber],
                 [Rpc ''eth_call'' [Obj [(''to'', to), (''data'', data)], blockNumber]])))"

subsection \<open>getBlocks\<close>

function getBlocks_loop :: "int \<Rightarrow> int \<Rightarrow> request list \<Rightarrow> request list" where
  "getBlocks_loop i toBlock batch =
     (if i < toBlock then
        getBlocks_loop (i + 1) toBlock
          (batch @ [client_request ''eth_getBlockByNumber''
                      [Str (''0x'' @ number_toString 16 i), Bool True]])
      else batch)"
  by pat_completeness auto
termination
  by (relation "measure (\<lambda>(i, toBlock, batch). nat (toBlock - i))") auto

definition getBlocks_batch :: "int \<Rightarrow> int \<Rightarrow> request list" where
  "getBlocks_batch fromBlock toBlock =
     (let batch = getBlocks_loop fromBlock toBlock [];
          options = formatLogOptions fromBlock (toBlock - 1)
      in batch @ [client_request ''eth_getLogs'' [options]])"

text \<open>
  The second \<^verbatim>\<open>map\<close>: the arguments of \<^verbatim>\<open>Object.assign\<close> are evaluated first, so a block
  that is \<^verbatim>\<open>undefined\<close> or \<^verbatim>\<open>null\<close> throws at \<^verbatim>\<open>block.number\<close>.
\<close>

definition normalize_block :: "jsval \<Rightarrow> error + jsobject" where
  "normalize_block block =
     and_then (get_prop block ''number'') (\<lambda>n.
     and_then (parseInt16 n) (\<lambda>number.
     and_then (get_prop block ''timestamp'') (\<lambda>t.
     and_then (parseInt16 t) (\<lambda>timestamp.
       object_assign block [(''number'', number), (''timestamp'', timestamp)]))))"

definition mismatch_error :: "jsval \<Rightarrow> jsval \<Rightarrow> error + 'a" where
  "mismatch_error logHash blockHash =
     and_then (to_string logHash) (\<lambda>a.
     and_then (to_string blockHash) (\<lambda>b.
       Inl (Thrown (''Error during fetch of logs. Log block hash ('' @ a @
                    '') differs from block hash ('' @ b @ '')''))))"

text \<open>
  \<^verbatim>\<open>block.logs ? block.logs.push(log) : block.logs = [...[log]]\<close>: the value of
  \<^verbatim>\<open>block.logs\<close> afterwards. Only an array has \<^verbatim>\<open>push\<close>.
\<close>

definition push_log :: "jsval \<Rightarrow> jsval \<Rightarrow> error + jsval" where
  "push_log logs log =
     (if truthy logs then
        (case logs of Arr xs \<Rightarrow> Inr (Arr (xs @ [log])) | _ \<Rightarrow> Inl TypeError)
      else Inr (Arr [log]))"

text \<open>\<^verbatim>\<open>parseInt16(log.blockNumber)\<close>.\<close>

definition logBlockNumber :: "jsval \<Rightarrow> error + jsval" where
  "logBlockNumber log = and_then (get_prop log ''blockNumber'') parseInt16"

text \<open>
  The body of \<^verbatim>\<open>logs.forEach\<close>; the blocks are updated in place. Where \<^verbatim>\<open>blocks[index]\<close>
  is \<^verbatim>\<open>undefined\<close>, reading its \<^verbatim>\<open>hash\<close> throws.
\<close>

definition attach_log :: "int \<Rightarrow> jsval \<Rightarrow> jsobject list \<Rightarrow> error + jsobject list" where
  "attach_log fromBlock log blocks =
     and_then (logBlockNumber log) (\<lambda>n.
       let index = minus_number n fromBlock in
       and_then (get_prop log ''blockHash'') (\<lambda>logHash.
         case array_slot blocks index of
           None \<Rightarrow> Inl TypeError
         | Some k \<Rightarrow>
             let block = blocks ! k in
             if \<not> strict_eq logHash (obj_get block ''hash'') then
               mismatch_error logHash (obj_get block ''hash'')
             else
               and_then (push_log (obj_get block ''logs'') log) (\<lambda>logs.
                 Inr (blocks[k := obj_set block ''logs'' logs]))))"

fun merge_logs :: "int \<Rightarrow> jsval list \<Rightarrow> jsobject list \<Rightarrow> error + jsobject list" where
  "merge_logs fromBlock [] blocks = Inr blocks"
| "merge_logs fromBlock (log # logs) blocks =
     and_then (attach_log fromBlock log blocks) (merge_logs fromBlock logs)"

text \<open>What \<^verbatim>\<open>getBlocks\<close> does with the responses once the batch has resolved.\<close>

definition getBlocks_merge :: "int \<Rightarrow> jsval list \<Rightarrow> error + jsobject list" where
  "getBlocks_merge fromBlock responses =
     and_then (map_result (\<lambda>res. get_prop res ''result'') (butlast responses)) (\<lambda>results.
     and_then (map_result normalize_block results) (\<lambda>blocks.
     and_then (get_prop (if responses = [] then Undefined else last responses) ''result'')
       (\<lambda>logs. case logs of
                  Arr ls \<Rightarrow> merge_logs fromBlock ls blocks
                | _ \<Rightarrow> Inl TypeError)))"

definition getBlocks :: "eth \<Rightarrow> int \<Rightarrow> int \<Rightarrow> (error + jsobject list) \<times> rpc_call list" where
  "getBlocks this fromBlock toBlock =
     (let batch = getBlocks_batch fromBlock toBlock
      in (and_then (send_batch this batch) (getBlocks_merge fromBlock), [Batch batch]))"

subsection \<open>getBlocksFromArray\<close>

fun getBlocksFromArray_loop :: "int list \<Rightarrow> request list \<Rightarrow> request list" where
  "getBlocksFromArray_loop [] batch = batch"
| "getBlocksFromArray_loop (bn # blockNumbers) batch =
     getBlocksFromArray_loop blockNumbers
       ((batch @ [client_request ''eth_getBlockByNumber''
                    [Str (''0x'' @ number_toString 16 bn), Bool True]])
              @ [client_request ''eth_getLogs'' [formatLogOptions bn bn]])"

definition getBlocksFromArray_batch :: "int list \<Rightarrow> request list" where
  "getBlocksFromArray_batch blockNumbers = getBlocksFromArray_loop blockNumbers []"

text \<open>
  The body of the loop over the responses, for the responses at \<open>i\<close> and \<open>i + 1\<close>: the
  block that is pushed.
\<close>

definition paired_block :: "jsval \<Rightarrow> jsval \<Rightarrow> error + jsobject" where
  "paired_block r0 r1 =
     and_then (get_prop r0 ''result'') (\<lambda>block.
     and_then (get_prop block ''number'') (\<lambda>n.
     and_then (parseInt16 n) (\<lambda>number.
     and_then (get_prop block ''timestamp'') (\<lambda>t.
     and_then (parseInt16 t) (\<lambda>timestamp.
     and_then (get_prop r1 ''result'') (\<lambda>logs.
       object_assign block
         [(''number'', number), (''timestamp'', timestamp), (''logs'', logs)]))))))"

text \<open>
  The loop \<^verbatim>\<open>for (let i = 0; i < responses.length - 1; i += 2)\<close> reads the responses two
  at a time; the first argument is what is left from index \<open>i\<close> on. A last response
  without a partner is not read.
\<close>

fun getBlocksFromArray_merge :: "jsval list \<Rightarrow> jsobject list \<Rightarrow> error + jsobject list" where
  "getBlocksFromArray_merge (r0 # r1 # responses) blocks =
     and_then (paired_block r0 r1) (\<lambda>b. getBlocksFromArray_merge responses (blocks @ [b]))"
| "getBlocksFromArray_merge responses blocks = Inr blocks"

definition getBlocksFromArray ::
  "eth \<Rightarrow> int list \<Rightarrow> (error + jsobject list) \<times> rpc_call list" where
  "getBlocksFromArray this blockNumbers =
     (let batch = getBlocksFromArray_batch blockNumbers
      in (and_then (send_batch this batch) (\<lambda>responses. getBlocksFromArray_merge responses []),
          [Batch batch]))"

section \<open>Notions used in the statements\<close>

text \<open>
  The logs a block carries (none when it has no array under \<^verbatim>\<open>logs\<close>), the values of
  \<^verbatim>\<open>block.logs\<close> that take a further log (an array, or a falsy value, which is replaced
  by a new array), and a block after a sequence of logs has been attached to it.
\<close>

definition logs_of :: "jsobject \<Rightarrow> jsval list" where
  "logs_of b = (case obj_get b ''logs'' of Arr xs \<Rightarrow> xs | _ \<Rightarrow> [])"

definition accepts_logs :: "jsval \<Rightarrow> bool" where
  "accepts_logs v = (case v of Arr xs \<Rightarrow> True | _ \<Rightarrow> \<not> truthy v)"

definition add_logs :: "jsobject \<Rightarrow> jsval list \<Rightarrow> jsobject" where
  "add_logs b ls = (if ls = [] then b else obj_set b ''logs'' (Arr (logs_of b @ ls)))"

text \<open>
  A log is in order for the blocks at position \<open>k\<close>: its block number is that of the
  \<open>k\<close>-th block of the range, that block exists and has the hash of the log, and its
  \<^verbatim>\<open>logs\<close> take a further log.
\<close>

definition fits :: "int \<Rightarrow> jsobject list \<Rightarrow> jsval \<Rightarrow> nat \<Rightarrow> bool" where
  "fits fromBlock blocks log k \<longleftrightarrow>
     logBlockNumber log = Inr (Num (fromBlock + int k)) \<and> k < length blocks \<and>
     (case get_prop log ''blockHash'' of
        Inr h \<Rightarrow> strict_eq h (obj_get (blocks ! k) ''hash'')
      | Inl e \<Rightarrow> False) \<and>
     accepts_logs (obj_get (blocks ! k) ''logs'')"

section \<open>Mocked transports\<close>

text \<open>
  A transport for examples: it resolves every batch to the given responses. A response
  carries its result under \<^verbatim>\<open>result\<close>.
\<close>

definition response :: "jsval \<Rightarrow> jsval" where
  "response v = Obj [(''jsonrpc'', Str ''2.0''), (''result'', v)]"

definition mock_eth :: "jsval list \<Rightarrow> eth" where
  "mock_eth responses = \<lparr>rpc = (\<lambda>m ps. Inr Null), send_batch = (\<lambda>batch. Inr responses)\<rparr>"

definition example_block :: "int \<Rightarrow> string \<Rightarrow> jsval" where
  "example_block n h =
     Obj [(''number'', Str (''0x'' @ number_toString 16 n)), (''hash'', Str h),
          (''timestamp'', Str ''0x5f5e100''), (''miner'', Str ''0xabc'')]"

definition example_log :: "int \<Rightarrow> string \<Rightarrow> string \<Rightarrow> jsval" where
  "example_log n h d =
     Obj [(''blockNumber'', Str (''0x'' @ number_toString 16 n)), (''blockHash'', Str h),
          (''data'', Str d)]"

text \<open>The responses to a batch of \<^verbatim>\<open>getBlocks\<close>: one for each block, then one for the logs.\<close>

definition range_responses :: "jsval list \<Rightarrow> jsval list \<Rightarrow> jsval list" where
  "range_responses blocks logs = map response blocks @ [response (Arr logs)]"

section \<open>Basic facts\<close>

declare radix_digits.simps [simp del]
declare getBlocks_loop.simps [simp del]

lemma and_then_Inr [simp]: "and_then (Inr x) f = f x"
  by (simp add: and_then_def)

lemma and_then_Inl [simp]: "and_then (Inl e) f = Inl e"
  by (simp add: and_then_def)

lemma and_then_eq_Inr:
  "and_then r f = Inr y \<longleftrightarrow> (\<exists>x. r = Inr x \<and> f x = Inr y)"
  by (cases r) simp_all

subsection \<open>Hexadecimal round trip\<close>

text \<open>
  Reading back what \<^verbatim>\<open>'0x' + i.toString(16)\<close> wrote gives \<open>i\<close>, for \<open>i\<close> not negative.
\<close>

lemma digit_chars_all:
  "\<forall>d \<in> set [0..<36]. digit_value (digit_char d) = Some d"
  by code_simp

lemma digit_value_digit_char: "d < 36 \<Longrightarrow> digit_value (digit_char d) = Some d"
  using digit_chars_all by simp

lemma is_digit_digit_char: "d < b \<Longrightarrow> b \<le> 36 \<Longrightarrow> is_digit b (digit_char d)"
  by (simp add: is_digit_def digit_value_digit_char)

lemma radix_digits_all:
  "2 \<le> b \<Longrightarrow> b \<le> 36 \<Longrightarrow> c \<in> set (radix_digits b n) \<Longrightarrow> is_digit b c"
proof (induction b n rule: radix_digits.induct)
  case (1 b n)
  show ?case
  proof (cases "n < b")
    case True
    with "1.prems" show ?thesis
      by (subst (asm) radix_digits.simps) (auto simp: is_digit_digit_char)
  next
    case False
    from False "1.prems" have "radix_digits b n = radix_digits b (n div b) @ [digit_char (n mod b)]"
      by (subst radix_digits.simps) simp
    with "1.prems" have "c \<in> set (radix_digits b (n div b)) \<or> c = digit_char (n mod b)"
      by auto
    then show ?thesis
    proof
      assume "c \<in> set (radix_digits b (n div b))"
      with 1 False show ?thesis by simp
    next
      assume "c = digit_char (n mod b)"
      with "1.prems" show ?thesis by (simp add: is_digit_digit_char)
    qed
  qed
qed

lemma digits_value_snoc:
  "digits_value b (z @ [c]) =
     digits_value b z * b + (case digit_value c of Some d \<Rightarrow> d | None \<Rightarrow> 0)"
  by (simp add: digits_value_def)

lemma digits_value_radix_digits:
  "2 \<le> b \<Longrightarrow> b \<le> 36 \<Longrightarrow> digits_value b (radix_digits b n) = n"
proof (induction b n rule: radix_digits.induct)
  case (1 b n)
  show ?case
  proof (cases "n < b")
    case True
    with "1.prems" show ?thesis
      by (subst radix_digits.simps) (simp add: digits_value_def digit_value_digit_char)
  next
    case False
    with 1 have ih: "digits_value b (radix_digits b (n div b)) = n div b" by simp
    from False "1.prems" have "radix_digits b n = radix_digits b (n div b) @ [digit_char (n mod b)]"
      by (subst radix_digits.simps) simp
    moreover have "n mod b < 36"
    proof -
      from "1.prems" have "n mod b < b" by simp
      with "1.prems" show ?thesis by linarith
    qed
    ultimately show ?thesis
      using ih by (simp add: digits_value_snoc digit_value_digit_char)
  qed
qed

lemma radix_digits_not_Nil: "radix_digits b n \<noteq> []"
  by (subst radix_digits.simps) simp

lemma takeWhile_radix_digits:
  "2 \<le> b \<Longrightarrow> b \<le> 36 \<Longrightarrow> takeWhile (is_digit b) (radix_digits b n) = radix_digits b n"
  by (simp add: takeWhile_eq_all_conv radix_digits_all)

lemma parseInt16_hex:
  assumes "0 \<le> i"
  shows "parseInt16 (Str (''0x'' @ number_toString 16 i)) = Inr (Num i)"
proof -
  have "number_toString 16 i = radix_digits 16 (nat i)"
    using assms by (simp add: number_toString_def)
  then show ?thesis
    using assms
    by (simp add: parseInt16_def parseInt_def is_space_def Let_def
        takeWhile_radix_digits digits_value_radix_digits radix_digits_not_Nil)
qed

subsection \<open>The loops that build a batch\<close>


lemma getBlocksFromArray_loop_eq:
  "getBlocksFromArray_loop blockNumbers batch =
     batch @ concat (map (\<lambda>bn. [client_request ''eth_getBlockByNumber''
                                    [Str (''0x'' @ number_toString 16 bn), Bool True],
                                  client_request ''eth_getLogs'' [formatLogOptions bn bn]])
                         blockNumbers)"
  by (induction blockNumbers arbitrary: batch) simp_all

subsection \<open>Results, objects and the merge of logs\<close>

text \<open>
  The merge of the logs succeeds exactly when every log is in order for the blocks, and
  then each block has received, in their order of arrival, the logs that carry its
  number.
\<close>

lemma and_then_eq_Inl:
  "and_then r f = Inl e \<longleftrightarrow> r = Inl e \<or> (\<exists>x. r = Inr x \<and> f x = Inl e)"
  by (cases r) simp_all

lemma map_result_Inr_iff:
  "map_result f xs = Inr ys \<longleftrightarrow> list_all2 (\<lambda>x y. f x = Inr y) xs ys"
proof (induction xs arbitrary: ys)
  case Nil
  then show ?case by auto
next
  case (Cons x xs)
  show ?case
    by (cases ys) (auto simp: and_then_eq_Inr Cons.IH)
qed

lemma map_result_append:
  "map_result f (xs @ [x]) = Inr zs \<longleftrightarrow>
     (\<exists>ys y. map_result f xs = Inr ys \<and> f x = Inr y \<and> zs = ys @ [y])"
  by (auto simp: map_result_Inr_iff list_all2_append1 list_all2_Cons1
      intro: list_all2_lengthD [symmetric])

lemma obj_get_obj_set:
  "obj_get (obj_set b k v) k' = (if k' = k then v else obj_get b k')"
  by (cases b) (simp_all add: obj_get_def update_conv')

lemma obj_set_obj_set: "obj_set (obj_set b k v) k v' = obj_set b k v'"
  by (cases b) (simp_all add: update_last)

lemma push_log_Inr_iff:
  "push_log v l = Inr w \<longleftrightarrow>
     accepts_logs v \<and> w = Arr ((case v of Arr xs \<Rightarrow> xs | _ \<Rightarrow> []) @ [l])"
  by (cases v) (auto simp: push_log_def accepts_logs_def)

lemma array_slot_Some_iff:
  "array_slot xs v = Some k \<longleftrightarrow> (\<exists>i. v = Num i \<and> 0 \<le> i \<and> k = nat i \<and> k < length xs)"
  by (cases v) auto

lemma mismatch_error_Inl: "\<exists>e. mismatch_error a b = Inl e"
  by (cases "to_string a"; cases "to_string b") (simp_all add: mismatch_error_def)

lemma mismatch_error_not_Inr [simp]: "mismatch_error a b \<noteq> Inr x"
  by (cases "to_string a"; cases "to_string b") (simp_all add: mismatch_error_def)

lemma fits_iff:
  "fits fromBlock blocks log k \<longleftrightarrow>
     logBlockNumber log = Inr (Num (fromBlock + int k)) \<and> k < length blocks \<and>
     (\<exists>h. get_prop log ''blockHash'' = Inr h \<and> strict_eq h (obj_get (blocks ! k) ''hash'')) \<and>
     accepts_logs (obj_get (blocks ! k) ''logs'')"
  by (auto simp: fits_def split: sum.splits)

lemma attach_log_Inr_iff:
  "attach_log fromBlock log blocks = Inr blocks' \<longleftrightarrow>
     (\<exists>k. fits fromBlock blocks log k \<and>
          blocks' = blocks[k := obj_set (blocks ! k) ''logs'' (Arr (logs_of (blocks ! k) @ [log]))])"
  (is "?L \<longleftrightarrow> ?R")
proof
  assume ?L
  then obtain n h k w where n: "logBlockNumber log = Inr n"
    and h: "get_prop log ''blockHash'' = Inr h"
    and k: "array_slot blocks (minus_number n fromBlock) = Some k"
    and eq: "strict_eq h (obj_get (blocks ! k) ''hash'')"
    and w: "push_log (obj_get (blocks ! k) ''logs'') log = Inr w"
    and b: "blocks' = blocks[k := obj_set (blocks ! k) ''logs'' w]"
    by (auto simp: attach_log_def and_then_eq_Inr Let_def split: option.splits if_splits)
  from k obtain i where i: "minus_number n fromBlock = Num i" "0 \<le> i" "k = nat i" "k < length blocks"
    by (auto simp: array_slot_Some_iff)
  then have "n = Num (fromBlock + int k)"
    by (cases n) auto
  with n h eq w i b have "fits fromBlock blocks log k"
    by (auto simp: fits_iff push_log_Inr_iff)
  moreover from w b
  have "blocks' = blocks[k := obj_set (blocks ! k) ''logs'' (Arr (logs_of (blocks ! k) @ [log]))]"
    by (simp add: push_log_Inr_iff logs_of_def)
  ultimately show ?R by blast
next
  assume ?R
  then obtain k where f: "fits fromBlock blocks log k"
    and b: "blocks' = blocks[k := obj_set (blocks ! k) ''logs'' (Arr (logs_of (blocks ! k) @ [log]))]"
    by blast
  from f have "push_log (obj_get (blocks ! k) ''logs'') log = Inr (Arr (logs_of (blocks ! k) @ [log]))"
    by (simp add: fits_iff push_log_Inr_iff logs_of_def)
  with f b show ?L
    by (auto simp: attach_log_def fits_iff Let_def)
qed


lemma fits_unique: "fits fromBlock blocks log k \<Longrightarrow> fits fromBlock blocks log k' \<Longrightarrow> k = k'"
  by (simp add: fits_iff)

lemma logs_of_obj_set [simp]: "logs_of (obj_set b ''logs'' (Arr xs)) = xs"
  by (simp add: logs_of_def obj_get_obj_set)

lemma fits_update:
  assumes "accepts_logs (obj_get (blocks ! j) ''logs'')"
  shows "fits fromBlock (blocks[j := obj_set (blocks ! j) ''logs'' (Arr xs)]) log k
           \<longleftrightarrow> fits fromBlock blocks log k"
proof (cases "k = j \<and> j < length blocks")
  case True
  with assms show ?thesis
    by (simp add: fits_iff obj_get_obj_set accepts_logs_def)
next
  case False
  then show ?thesis
    by (auto simp: fits_iff)
qed

lemma add_logs_step:
  assumes "fits fromBlock blocks log k" and "j < length blocks"
  shows "add_logs (blocks[k := obj_set (blocks ! k) ''logs'' (Arr (logs_of (blocks ! k) @ [log]))] ! j)
           [x \<leftarrow> logs. logBlockNumber x = Inr (Num (fromBlock + int j))]
         = add_logs (blocks ! j)
           [x \<leftarrow> log # logs. logBlockNumber x = Inr (Num (fromBlock + int j))]"
proof (cases "j = k")
  case True
  with assms show ?thesis
    by (simp add: fits_iff add_logs_def obj_set_obj_set)
next
  case False
  with assms show ?thesis
    by (simp add: fits_iff)
qed

lemma merge_logs_Inr_iff:
  "merge_logs fromBlock logs blocks = Inr blocks' \<longleftrightarrow>
     (\<forall>l \<in> set logs. \<exists>k. fits fromBlock blocks l k) \<and>
     blocks' = map (\<lambda>k. add_logs (blocks ! k)
                          [l \<leftarrow> logs. logBlockNumber l = Inr (Num (fromBlock + int k))])
                   [0..<length blocks]"
proof (induction logs arbitrary: blocks blocks')
  case Nil
  show ?case
    by (auto simp: add_logs_def map_nth)
next
  case (Cons log logs)
  let ?F = "\<lambda>ls k. [l \<leftarrow> ls. logBlockNumber l = Inr (Num (fromBlock + int k))]"
  let ?upd = "\<lambda>k. blocks[k := obj_set (blocks ! k) ''logs'' (Arr (logs_of (blocks ! k) @ [log]))]"
  have step: "map (\<lambda>j. add_logs (?upd k ! j) (?F logs j)) [0..<length (?upd k)]
              = map (\<lambda>j. add_logs (blocks ! j) (?F (log # logs) j)) [0..<length blocks]"
    if "fits fromBlock blocks log k" for k
    using add_logs_step [OF that, of _ logs] by simp
  have pres: "(\<exists>k'. fits fromBlock (?upd k) l k') \<longleftrightarrow> (\<exists>k'. fits fromBlock blocks l k')"
    if "fits fromBlock blocks log k" for k l
    using that fits_update [of blocks k] by (simp add: fits_iff)
  show ?case
  proof
    assume "merge_logs fromBlock (log # logs) blocks = Inr blocks'"
    then obtain k where k: "fits fromBlock blocks log k"
      and m: "merge_logs fromBlock logs (?upd k) = Inr blocks'"
      by (auto simp: and_then_eq_Inr attach_log_Inr_iff)
    from m have "\<forall>l \<in> set logs. \<exists>k'. fits fromBlock (?upd k) l k'"
      and "blocks' = map (\<lambda>j. add_logs (?upd k ! j) (?F logs j)) [0..<length (?upd k)]"
      by (simp_all add: Cons.IH)
    with k show "(\<forall>l \<in> set (log # logs). \<exists>k. fits fromBlock blocks l k) \<and>
        blocks' = map (\<lambda>k. add_logs (blocks ! k) (?F (log # logs) k)) [0..<length blocks]"
      using pres [OF k] step [OF k] by auto
  next
    assume r: "(\<forall>l \<in> set (log # logs). \<exists>k. fits fromBlock blocks l k) \<and>
        blocks' = map (\<lambda>k. add_logs (blocks ! k) (?F (log # logs) k)) [0..<length blocks]"
    then obtain k where k: "fits fromBlock blocks log k" by auto
    from r have "\<forall>l \<in> set logs. \<exists>k'. fits fromBlock (?upd k) l k'"
      using pres [OF k] by auto
    moreover from r have "blocks' = map (\<lambda>j. add_logs (?upd k ! j) (?F logs j)) [0..<length (?upd k)]"
      using step [OF k] by simp
    ultimately have "merge_logs fromBlock logs (?upd k) = Inr blocks'"
      by (simp add: Cons.IH)
    moreover have "attach_log fromBlock log blocks = Inr (?upd k)"
      using k by (auto simp: attach_log_Inr_iff)
    ultimately show "merge_logs fromBlock (log # logs) blocks = Inr blocks'"
      by simp
  qed
qed


lemma merge_logs_Inl_iff:
  "(\<exists>e. merge_logs fromBlock logs blocks = Inl e) \<longleftrightarrow>
     (\<exists>l \<in> set logs. \<forall>k. \<not> fits fromBlock blocks l k)"
proof -
  have "(\<exists>e. merge_logs fromBlock logs blocks = Inl e) \<longleftrightarrow>
        \<not> (\<exists>blocks'. merge_logs fromBlock logs blocks = Inr blocks')"
    by (cases "merge_logs fromBlock logs blocks") simp_all
  then show ?thesis
    by (simp add: merge_logs_Inr_iff)
qed

lemma strict_eq_imp_eq: "strict_eq a b \<Longrightarrow> a = b"
  by (cases a; cases b) simp_all

lemma to_object_get: "to_object v = Inr ob \<Longrightarrow> get_prop v k = Inr (obj_get ob k)"
  by (cases v) (auto simp: obj_get_def)

lemma normalize_block_Inr_iff:
  "normalize_block v = Inr b \<longleftrightarrow>
     (\<exists>n pn t pt ob. get_prop v ''number'' = Inr n \<and> parseInt16 n = Inr pn \<and>
        get_prop v ''timestamp'' = Inr t \<and> parseInt16 t = Inr pt \<and>
        to_object v = Inr ob \<and> b = obj_set (obj_set ob ''number'' pn) ''timestamp'' pt)"
  by (auto simp: normalize_block_def object_assign_def and_then_eq_Inr)

lemma normalize_block_frame:
  assumes "normalize_block v = Inr b" and "k \<noteq> ''number''" and "k \<noteq> ''timestamp''"
  shows "get_prop v k = Inr (obj_get b k)"
  using assms by (auto simp: normalize_block_Inr_iff obj_get_obj_set to_object_get)

lemma normalize_block_number:
  assumes "normalize_block v = Inr b"
  shows "\<exists>n. get_prop v ''number'' = Inr n \<and> parseInt16 n = Inr (obj_get b ''number'')"
  using assms by (auto simp: normalize_block_Inr_iff obj_get_obj_set)

lemma normalize_block_timestamp:
  assumes "normalize_block v = Inr b"
  shows "\<exists>t. get_prop v ''timestamp'' = Inr t \<and> parseInt16 t = Inr (obj_get b ''timestamp'')"
  using assms by (auto simp: normalize_block_Inr_iff obj_get_obj_set)

lemma obj_get_add_logs:
  "obj_get (add_logs b ls) k =
     (if k = ''logs'' \<and> ls \<noteq> [] then Arr (logs_of b @ ls) else obj_get b k)"
  by (simp add: add_logs_def obj_get_obj_set)

lemma getBlocks_merge_Inr_iff:
  "getBlocks_merge fromBlock responses = Inr result \<longleftrightarrow>
     (\<exists>results logs blocks.
        map_result (\<lambda>res. get_prop res ''result'') responses = Inr (results @ [Arr logs]) \<and>
        map_result normalize_block results = Inr blocks \<and>
        merge_logs fromBlock logs blocks = Inr result)"
proof (cases responses rule: rev_cases)
  case Nil
  then show ?thesis
    by (simp add: getBlocks_merge_def)
next
  case (snoc rs r)
  have "(case v of Arr ls \<Rightarrow> merge_logs fromBlock ls blocks | _ \<Rightarrow> Inl TypeError) = Inr result
        \<longleftrightarrow> (\<exists>logs. v = Arr logs \<and> merge_logs fromBlock logs blocks = Inr result)" for v blocks
    by (cases v) simp_all
  with snoc show ?thesis
    by (auto simp: getBlocks_merge_def and_then_eq_Inr map_result_append)
qed

lemma parseInt16_hex_Cons:
  "0 \<le> i \<Longrightarrow> parseInt16 (Str (CHR ''0'' # CHR ''x'' # number_toString 16 i)) = Inr (Num i)"
  using parseInt16_hex [of i] by simp

lemma map_result_total:
  "(\<forall>x \<in> set xs. \<exists>y. f x = Inr y) \<Longrightarrow> \<exists>ys. map_result f xs = Inr ys"
  by (induction xs) auto

lemma map_result_nth:
  assumes "map_result f xs = Inr ys"
  shows "length ys = length xs" and "k < length xs \<Longrightarrow> f (xs ! k) = Inr (ys ! k)"
  using assms by (auto simp: map_result_Inr_iff dest: list_all2_lengthD list_all2_nthD)


lemma fst_getBlocks:
  "send_batch this (getBlocks_batch fromBlock toBlock) = Inr responses \<Longrightarrow>
     fst (getBlocks this fromBlock toBlock) = getBlocks_merge fromBlock responses"
  by (simp add: getBlocks_def Let_def)

text \<open>A log that agrees with the block the transport delivered is in order for the
  normalised blocks.\<close>

lemma logs_fit:
  assumes nbs: "map_result normalize_block blocks = Inr nbs"
    and l: "logBlockNumber l = Inr (Num n)" "fromBlock \<le> n" "nat (n - fromBlock) < length blocks"
      "get_prop l ''blockHash'' = Inr h" "get_prop (blocks ! nat (n - fromBlock)) ''hash'' = Inr h'"
      "strict_eq h h'"
      "get_prop (blocks ! nat (n - fromBlock)) ''logs'' = Inr lv" "accepts_logs lv"
  shows "fits fromBlock nbs l (nat (n - fromBlock))"
proof -
  let ?k = "nat (n - fromBlock)"
  from nbs l(3) have nb: "normalize_block (blocks ! ?k) = Inr (nbs ! ?k)" and len: "length nbs = length blocks"
    by (simp_all add: map_result_nth)
  from nb l(5) have "obj_get (nbs ! ?k) ''hash'' = h'"
    using normalize_block_frame [of "blocks ! ?k" "nbs ! ?k" "''hash''"] by simp
  moreover from nb l(7) have "obj_get (nbs ! ?k) ''logs'' = lv"
    using normalize_block_frame [of "blocks ! ?k" "nbs ! ?k" "''logs''"] by simp
  ultimately show ?thesis
    using l len by (simp add: fits_iff)
qed

lemma logs_of_add_logs: "logs_of (add_logs b ls) = logs_of b @ ls"
  by (simp add: add_logs_def)

lemma getBlocks_merge_parts:
  assumes "getBlocks_merge fromBlock responses = Inr result"
  obtains results logs nbs where
    "responses \<noteq> []" "length results = length responses - 1"
    "get_prop (last responses) ''result'' = Inr (Arr logs)"
    "\<And>k. k < length results \<Longrightarrow> get_prop (responses ! k) ''result'' = Inr (results ! k)"
    "map_result normalize_block results = Inr nbs"
    "merge_logs fromBlock logs nbs = Inr result"
proof -
  from assms obtain results logs nbs where
    r: "map_result (\<lambda>res. get_prop res ''result'') responses = Inr (results @ [Arr logs])"
    and n: "map_result normalize_block results = Inr nbs"
    and m: "merge_logs fromBlock logs nbs = Inr result"
    by (auto simp: getBlocks_merge_Inr_iff)
  from r have len: "length responses = length results + 1"
    using map_result_nth(1) [OF r] by simp
  then have ne: "responses \<noteq> []" by auto
  have nth: "get_prop (responses ! k) ''result'' = Inr ((results @ [Arr logs]) ! k)"
    if "k < length responses" for k
    using map_result_nth(2) [OF r that] .
  from ne len have "last responses = responses ! length results"
    by (simp add: last_conv_nth)
  with nth [of "length results"] len have "get_prop (last responses) ''result'' = Inr (Arr logs)"
    by simp
  moreover have "get_prop (responses ! k) ''result'' = Inr (results ! k)" if "k < length results" for k
    using nth [of k] that len by (simp add: nth_append)
  ultimately show ?thesis
    using that ne len n m by simp
qed

subsection \<open>The pairs of \<^verbatim>\<open>getBlocksFromArray\<close>\<close>

lemma paired_block_Inr_iff:
  "paired_block r0 r1 = Inr b \<longleftrightarrow>
     (\<exists>blk n pn t pt lv ob. get_prop r0 ''result'' = Inr blk \<and>
        get_prop blk ''number'' = Inr n \<and> parseInt16 n = Inr pn \<and>
        get_prop blk ''timestamp'' = Inr t \<and> parseInt16 t = Inr pt \<and>
        get_prop r1 ''result'' = Inr lv \<and> to_object blk = Inr ob \<and>
        b = obj_set (obj_set (obj_set ob ''number'' pn) ''timestamp'' pt) ''logs'' lv)"
  by (auto simp: paired_block_def object_assign_def and_then_eq_Inr)

lemma getBlocksFromArray_merge_Inr_iff:
  "getBlocksFromArray_merge rs acc = Inr result \<longleftrightarrow>
     (\<exists>new. result = acc @ new \<and> length new = length rs div 2 \<and>
        (\<forall>k<length rs div 2. paired_block (rs ! (2 * k)) (rs ! (2 * k + 1)) = Inr (new ! k)))"
proof (induction rs acc arbitrary: result rule: getBlocksFromArray_merge.induct)
  case (1 r0 r1 responses blocks)
  have split: "(\<forall>k<Suc m. P k) \<longleftrightarrow> P 0 \<and> (\<forall>k<m. P (Suc k))" for m and P :: "nat \<Rightarrow> bool"
    by (metis less_Suc_eq_0_disj)
  show ?case
  proof
    assume "getBlocksFromArray_merge (r0 # r1 # responses) blocks = Inr result"
    then obtain b new where b: "paired_block r0 r1 = Inr b"
      and new: "result = (blocks @ [b]) @ new" "length new = length responses div 2"
        "\<forall>k<length responses div 2.
           paired_block (responses ! (2 * k)) (responses ! (2 * k + 1)) = Inr (new ! k)"
      by (auto simp: and_then_eq_Inr 1)
    then have "result = blocks @ (b # new) \<and> length (b # new) = length (r0 # r1 # responses) div 2 \<and>
        (\<forall>k<length (r0 # r1 # responses) div 2.
           paired_block ((r0 # r1 # responses) ! (2 * k)) ((r0 # r1 # responses) ! (2 * k + 1))
             = Inr ((b # new) ! k))"
      by (simp add: split)
    then show "\<exists>new. result = blocks @ new \<and> length new = length (r0 # r1 # responses) div 2 \<and>
        (\<forall>k<length (r0 # r1 # responses) div 2.
           paired_block ((r0 # r1 # responses) ! (2 * k)) ((r0 # r1 # responses) ! (2 * k + 1))
             = Inr (new ! k))"
      by blast
  next
    assume "\<exists>new. result = blocks @ new \<and> length new = length (r0 # r1 # responses) div 2 \<and>
        (\<forall>k<length (r0 # r1 # responses) div 2.
           paired_block ((r0 # r1 # responses) ! (2 * k)) ((r0 # r1 # responses) ! (2 * k + 1))
             = Inr (new ! k))"
    then obtain new where new: "result = blocks @ new"
      "length new = Suc (length responses div 2)"
      "\<forall>k<Suc (length responses div 2).
           paired_block ((r0 # r1 # responses) ! (2 * k)) ((r0 # r1 # responses) ! (2 * k + 1))
             = Inr (new ! k)"
      by auto
    from new(2) obtain b new' where bn: "new = b # new'"
      by (cases new) auto
    with new have "paired_block r0 r1 = Inr b"
      and "result = (blocks @ [b]) @ new'" "length new' = length responses div 2"
      "\<forall>k<length responses div 2.
           paired_block (responses ! (2 * k)) (responses ! (2 * k + 1)) = Inr (new' ! k)"
      by (simp_all add: split)
    then show "getBlocksFromArray_merge (r0 # r1 # responses) blocks = Inr result"
      using 1 by auto
  qed
qed auto

lemma fst_getBlocksFromArray:
  "send_batch this (getBlocksFromArray_batch blockNumbers) = Inr responses \<Longrightarrow>
     fst (getBlocksFromArray this blockNumbers) = getBlocksFromArray_merge responses []"
  by (simp add: getBlocksFromArray_def Let_def)

lemma to_string_TypeError:
  "to_string v = Inl e \<Longrightarrow> e = TypeError"
  "join_elems vs = Inl e \<Longrightarrow> e = TypeError"
  by (induction v and vs rule: to_string_join_elems.induct)
     (auto simp: and_then_eq_Inl split: if_splits)

lemma get_prop_TypeError: "get_prop v k = Inl e \<Longrightarrow> e = TypeError"
  by (cases v) auto

lemma parseInt16_TypeError: "parseInt16 v = Inl e \<Longrightarrow> e = TypeError"
  by (auto simp: parseInt16_def parseInt_def and_then_eq_Inl Let_def to_string_TypeError
      split: if_splits)

lemma object_assign_TypeError: "object_assign v fs = Inl e \<Longrightarrow> e = TypeError"
  by (cases v) (auto simp: object_assign_def)

lemma paired_block_TypeError: "paired_block r0 r1 = Inl e \<Longrightarrow> e = TypeError"
  by (auto simp: paired_block_def and_then_eq_Inl
      dest: get_prop_TypeError parseInt16_TypeError object_assign_TypeError)

lemma getBlocksFromArray_merge_TypeError:
  "getBlocksFromArray_merge rs acc = Inl e \<Longrightarrow> e = TypeError"
  by (induction rs acc rule: getBlocksFromArray_merge.induct)
     (auto simp: and_then_eq_Inl dest: paired_block_TypeError)


lemma paired_block_frame:
  assumes "paired_block r0 r1 = Inr b"
  shows "\<exists>block. get_prop r0 ''result'' = Inr block \<and>
           get_prop r1 ''result'' = Inr (obj_get b ''logs'') \<and>
           (\<exists>n. get_prop block ''number'' = Inr n \<and> parseInt16 n = Inr (obj_get b ''number'')) \<and>
           (\<exists>t. get_prop block ''timestamp'' = Inr t \<and>
                parseInt16 t = Inr (obj_get b ''timestamp'')) \<and>
           (\<forall>key. key \<notin> {''number'', ''timestamp'', ''logs''} \<longrightarrow>
                get_prop block key = Inr (obj_get b key))"
  using assms by (auto simp: paired_block_Inr_iff obj_get_obj_set to_object_get)

subsection \<open>The mocked transports\<close>

lemma get_prop_response [simp]: "get_prop (response v) ''result'' = Inr v"
  by (simp add: response_def)

lemma map_result_responses:
  "map_result (\<lambda>res. get_prop res ''result'') (map response vs) = Inr vs"
  by (induction vs) simp_all

lemma range_responses_results:
  "map_result (\<lambda>res. get_prop res ''result'') (range_responses blocks logs) = Inr (blocks @ [Arr logs])"
  by (simp add: range_responses_def map_result_append map_result_responses)

lemma example_block_props:
  "get_prop (example_block n h) ''number'' = Inr (Str (''0x'' @ number_toString 16 n))"
  "get_prop (example_block n h) ''hash'' = Inr (Str h)"
  "get_prop (example_block n h) ''timestamp'' = Inr (Str ''0x5f5e100'')"
  "get_prop (example_block n h) ''logs'' = Inr Undefined"
  by (simp_all add: example_block_def)

lemma example_timestamp: "parseInt16 (Str ''0x5f5e100'') = Inr (Num 100000000)"
  by (simp add: parseInt16_def parseInt_def is_space_def is_digit_def digit_value_def
      digits_value_def Let_def)

lemma example_log_props:
  "0 \<le> n \<Longrightarrow> logBlockNumber (example_log n h d) = Inr (Num n)"
  "get_prop (example_log n h d) ''blockHash'' = Inr (Str h)"
  by (simp_all add: example_log_def logBlockNumber_def parseInt16_hex_Cons)

lemma example_normalize:
  "0 \<le> n \<Longrightarrow> normalize_block (example_block n h) =
     Inr (Plain [(''number'', Num n), (''hash'', Str h), (''timestamp'', Num 100000000),
                 (''miner'', Str ''0xabc'')])"
  using example_timestamp
  by (simp add: normalize_block_def example_block_def parseInt16_hex_Cons object_assign_def)

lemma example_attach:
  assumes "0 \<le> n" "fromBlock \<le> n" "nat (n - fromBlock) < length blocks"
    "obj_get (blocks ! nat (n - fromBlock)) ''hash'' = Str h"
  shows "attach_log fromBlock (example_log n h d) blocks =
     and_then (push_log (obj_get (blocks ! nat (n - fromBlock)) ''logs'') (example_log n h d))
       (\<lambda>logs. Inr (blocks[nat (n - fromBlock) :=
                        obj_set (blocks ! nat (n - fromBlock)) ''logs'' logs]))"
  using assms by (simp add: attach_log_def example_log_props Let_def)

lemma example_merge:
  "getBlocks_merge 10
     (range_responses [example_block 10 ''0xaa'', example_block 11 ''0xbb'']
        [example_log 11 ''0xbb'' ''x'', example_log 10 ''0xaa'' ''y'', example_log 11 ''0xbb'' ''z''])
   = Inr [Plain [(''number'', Num 10), (''hash'', Str ''0xaa''), (''timestamp'', Num 100000000),
                 (''miner'', Str ''0xabc''),
                 (''logs'', Arr [example_log 10 ''0xaa'' ''y''])],
          Plain [(''number'', Num 11), (''hash'', Str ''0xbb''), (''timestamp'', Num 100000000),
                 (''miner'', Str ''0xabc''),
                 (''logs'', Arr [example_log 11 ''0xbb'' ''x'', example_log 11 ''0xbb'' ''z''])]]"
  by (simp add: getBlocks_merge_def range_responses_def example_normalize example_attach
      obj_get_def push_log_def)


lemma example_paired:
  "0 \<le> n \<Longrightarrow> paired_block (response (example_block n h)) (response logs) =
     Inr (Plain [(''number'', Num n), (''hash'', Str h), (''timestamp'', Num 100000000),
                 (''miner'', Str ''0xabc''), (''logs'', logs)])"
  using example_timestamp
  by (simp add: paired_block_def example_block_def parseInt16_hex_Cons object_assign_def)

lemma example_pairs_merge:
  "getBlocksFromArray_merge
     [response (example_block 10 ''0xaa''), response (Arr [example_log 10 ''0xff'' ''x'']),
      response (example_block 11 ''0xbb''), response (Arr [])] []
   = Inr [Plain [(''number'', Num 10), (''hash'', Str ''0xaa''), (''timestamp'', Num 100000000),
                 (''miner'', Str ''0xabc''), (''logs'', Arr [example_log 10 ''0xff'' ''x''])],
          Plain [(''number'', Num 11), (''hash'', Str ''0xbb''), (''timestamp'', Num 100000000),
                 (''miner'', Str ''0xabc''), (''logs'', Arr [])]]"
  by (simp add: example_paired)

section \<open>The requests sent\<close>



text \<open>
  Claim C5. The batch of \<^verbatim>\<open>getBlocksFromArray\<close> is, for each block number of the
  input in order, the request for that block followed by the request for the logs of
  that block alone; it has twice as many requests as the input has numbers and is
  sent as one batch. For two numbers these are the four requests block(b1), logs(b1),
  block(b2), logs(b2).
\<close>

theorem getBlocksFromArray_batch_shape:
  "getBlocksFromArray_batch blockNumbers =
     concat (map (\<lambda>bn. [\<lparr>req_method = ''eth_getBlockByNumber'',
                             req_params = [Str (''0x'' @ number_toString 16 bn), Bool True]\<rparr>,
                          \<lparr>req_method = ''eth_getLogs'',
                             req_params = [Obj [(''fromBlock'', Str (''0x'' @ number_toString 16 bn)),
                                            (''toBlock'', Str (''0x'' @ number_toString 16 bn))]]\<rparr>])
                 blockNumbers)
   \<and> length (getBlocksFromArray_batch blockNumbers) = 2 * length blockNumbers
   \<and> snd (getBlocksFromArray this blockNumbers) = [Batch (getBlocksFromArray_batch blockNumbers)]
   \<and> getBlocksFromArray_batch [b1, b2] =
       [\<lparr>req_method = ''eth_getBlockByNumber'',
           req_params = [Str (''0x'' @ number_toString 16 b1), Bool True]\<rparr>,
        \<lparr>req_method = ''eth_getLogs'',
           req_params = [Obj [(''fromBlock'', Str (''0x'' @ number_toString 16 b1)),
                          (''toBlock'', Str (''0x'' @ number_toString 16 b1))]]\<rparr>,
        \<lparr>req_method = ''eth_getBlockByNumber'',
           req_params = [Str (''0x'' @ number_toString 16 b2), Bool True]\<rparr>,
        \<lparr>req_method = ''eth_getLogs'',
           req_params = [Obj [(''fromBlock'', Str (''0x'' @ number_toString 16 b2)),
                          (''toBlock'', Str (''0x'' @ number_toString 16 b2))]]\<rparr>]"
proof -
  have "length (concat (map (\<lambda>bn. [f bn, g bn]) bns)) = 2 * length bns" for f g :: "int \<Rightarrow> request" and bns
    by (induction bns) simp_all
  then show ?thesis
    by (simp add: getBlocksFromArray_batch_def getBlocksFromArray_loop_eq client_request_def
        formatLogOptions_def getBlocksFromArray_def Let_def)
qed

section \<open>The guard of \<^verbatim>\<open>call\<close>\<close>

text \<open>
  Claim C7. When \<^verbatim>\<open>call\<close> is given a block number that is neither the string
  \<^verbatim>\<open>latest\<close> nor accepted by \<^verbatim>\<open>utils.isHex\<close>, it is rejected and nothing has been sent
  to the transport. An argument \<^verbatim>\<open>undefined\<close> is an omitted argument and stands for
  \<^verbatim>\<open>latest\<close>.
\<close>

theorem call_rejects_non_hex:
  assumes "blockNumber \<noteq> Undefined"
    and "blockNumber \<noteq> Str ''latest''"
    and "\<not> isHex blockNumber"
  shows "snd (call isHex encodeTxData this methodSignature to args blockNumber) = []
       \<and> (\<exists>e. fst (call isHex encodeTxData this methodSignature to args blockNumber) = Inl e)"
proof -
  have "\<not> strict_eq blockNumber (Str ''latest'')"
    using assms(2) by (cases blockNumber) simp_all
  with assms show ?thesis
    by (cases "to_string blockNumber") (simp_all add: call_def Let_def)
qed

theorem call_rejects_non_hex_witness:
  "snd (call (\<lambda>v. False) (\<lambda>s a. Inr (Str ''0x'')) (mock_eth []) (Str ''f()'') (Str ''0x01'') Undefined (Num 12)) = []
   \<and> fst (call (\<lambda>v. False) (\<lambda>s a. Inr (Str ''0x'')) (mock_eth []) (Str ''f()'') (Str ''0x01'') Undefined (Num 12))
       = Inl (Thrown ''Expected hex, got: 12 (type number)'')"
proof -
  have h: "number_toString 10 12 = ''12''" by code_simp
  have "Num 12 \<noteq> Undefined" "Num 12 \<noteq> Str ''latest''" "\<not> (\<lambda>v. False) (Num 12)"
    by simp_all
  from call_rejects_non_hex [OF this, of "\<lambda>s a. Inr (Str ''0x'')" "mock_eth []" "Str ''f()''" "Str ''0x01''" Undefined]
  show ?thesis
    by (simp add: call_def h)
qed

section \<open>Determinism\<close>



section \<open>The blocks and logs returned by \<^verbatim>\<open>getBlocks\<close>\<close>



text \<open>
  Claim C4. When every log the transport returns has a block number of the range and
  the hash of the block at index \<^verbatim>\<open>parseInt16(log.blockNumber) - fromBlock\<close>,
  \<^verbatim>\<open>getBlocks\<close> returns the blocks, and the logs of the block at index \<open>k\<close> are the logs it
  arrived with (none when it had no \<^verbatim>\<open>logs\<close>, in which case the sequence is created)
  followed by exactly the returned logs whose index is \<open>k\<close>, in their order of arrival.
  So each log is in the logs of the block at its index, once, and of no other block.
\<close>

theorem getBlocks_attaches_logs:
  assumes sent: "send_batch this (getBlocks_batch fromBlock toBlock) = Inr responses"
    and answered: "map_result (\<lambda>res. get_prop res ''result'') responses = Inr (blocks @ [Arr logs])"
    and fields: "\<forall>k<length blocks. \<exists>n pn t pt. get_prop (blocks ! k) ''number'' = Inr n \<and>
                    parseInt16 n = Inr pn \<and> get_prop (blocks ! k) ''timestamp'' = Inr t \<and>
                    parseInt16 t = Inr pt"
    and arrived: "\<forall>k<length blocks. get_prop (blocks ! k) ''logs'' = Inr (arrived k) \<and>
                    accepts_logs (arrived k)"
    and consistent: "\<forall>l \<in> set logs. \<exists>n h h'. logBlockNumber l = Inr (Num n) \<and>
                    fromBlock \<le> n \<and> nat (n - fromBlock) < length blocks \<and>
                    get_prop l ''blockHash'' = Inr h \<and>
                    get_prop (blocks ! nat (n - fromBlock)) ''hash'' = Inr h' \<and> strict_eq h h'"
  shows "\<exists>result. fst (getBlocks this fromBlock toBlock) = Inr result \<and>
           length result = length blocks \<and>
           (\<forall>k<length blocks.
              logs_of (result ! k) =
                (case arrived k of Arr xs \<Rightarrow> xs | _ \<Rightarrow> []) @
                [l \<leftarrow> logs. logBlockNumber l = Inr (Num (fromBlock + int k))] \<and>
              ([l \<leftarrow> logs. logBlockNumber l = Inr (Num (fromBlock + int k))] \<noteq> [] \<longrightarrow>
                 obj_get (result ! k) ''logs'' = Arr (logs_of (result ! k))))"
proof -
  have "\<exists>b. normalize_block x = Inr b" if "x \<in> set blocks" for x
  proof -
    from that obtain k where k: "k < length blocks" "x = blocks ! k"
      by (auto simp: in_set_conv_nth)
    with fields obtain n pn t pt where
      "get_prop x ''number'' = Inr n" "parseInt16 n = Inr pn"
      "get_prop x ''timestamp'' = Inr t" "parseInt16 t = Inr pt"
      by blast
    moreover from this(1) obtain ob where "to_object x = Inr ob"
      by (cases x) auto
    ultimately show ?thesis
      by (simp add: normalize_block_Inr_iff)
  qed
  then obtain nbs where nbs: "map_result normalize_block blocks = Inr nbs"
    using map_result_total [of blocks normalize_block] by blast
  then have nlen: "length nbs = length blocks"
    by (simp add: map_result_nth)
  have "\<exists>k. fits fromBlock nbs l k" if "l \<in> set logs" for l
  proof -
    from that consistent obtain n h h' where n: "logBlockNumber l = Inr (Num n)"
      "fromBlock \<le> n" "nat (n - fromBlock) < length blocks" "get_prop l ''blockHash'' = Inr h"
      "get_prop (blocks ! nat (n - fromBlock)) ''hash'' = Inr h'" "strict_eq h h'"
      by blast
    with arrived have "get_prop (blocks ! nat (n - fromBlock)) ''logs'' = Inr (arrived (nat (n - fromBlock)))"
      "accepts_logs (arrived (nat (n - fromBlock)))" by simp_all
    with n show ?thesis
      using logs_fit [OF nbs] by blast
  qed
  then obtain result where merged: "merge_logs fromBlock logs nbs = Inr result"
    and result: "result = map (\<lambda>k. add_logs (nbs ! k)
        [l \<leftarrow> logs. logBlockNumber l = Inr (Num (fromBlock + int k))]) [0..<length nbs]"
    by (simp add: merge_logs_Inr_iff)
  have "logs_of (nbs ! k) = (case arrived k of Arr xs \<Rightarrow> xs | _ \<Rightarrow> [])" if "k < length blocks" for k
  proof -
    from that nbs have "normalize_block (blocks ! k) = Inr (nbs ! k)"
      by (simp add: map_result_nth)
    with arrived that have "obj_get (nbs ! k) ''logs'' = arrived k"
      using normalize_block_frame [of "blocks ! k" "nbs ! k" "''logs''"] by simp
    then show ?thesis by (simp add: logs_of_def)
  qed
  with result nlen have "\<forall>k<length blocks.
      logs_of (result ! k) =
        (case arrived k of Arr xs \<Rightarrow> xs | _ \<Rightarrow> []) @
        [l \<leftarrow> logs. logBlockNumber l = Inr (Num (fromBlock + int k))] \<and>
      ([l \<leftarrow> logs. logBlockNumber l = Inr (Num (fromBlock + int k))] \<noteq> [] \<longrightarrow>
         obj_get (result ! k) ''logs'' = Arr (logs_of (result ! k)))"
    by (simp add: logs_of_add_logs obj_get_add_logs)
  moreover have "fst (getBlocks this fromBlock toBlock) = Inr result"
    using answered nbs merged by (auto simp: fst_getBlocks [OF sent] getBlocks_merge_Inr_iff)
  ultimately show ?thesis
    using result nlen by auto
qed

theorem getBlocks_attaches_logs_witness:
  "\<exists>result.
     fst (getBlocks
            (mock_eth (range_responses [example_block 10 ''0xaa'', example_block 11 ''0xbb'']
               [example_log 11 ''0xbb'' ''x'', example_log 10 ''0xaa'' ''y'',
                example_log 11 ''0xbb'' ''z'']))
            10 12) = Inr result \<and>
     length result = 2 \<and>
     obj_get (result ! 0) ''logs'' = Arr [example_log 10 ''0xaa'' ''y''] \<and>
     obj_get (result ! 1) ''logs'' = Arr [example_log 11 ''0xbb'' ''x'', example_log 11 ''0xbb'' ''z'']"
proof -
  let ?blocks = "[example_block 10 ''0xaa'', example_block 11 ''0xbb'']"
  let ?logs = "[example_log 11 ''0xbb'' ''x'', example_log 10 ''0xaa'' ''y'',
                example_log 11 ''0xbb'' ''z'']"
  let ?eth = "mock_eth (range_responses ?blocks ?logs)"
  have sent: "send_batch ?eth (getBlocks_batch 10 12) = Inr (range_responses ?blocks ?logs)"
    by (simp add: mock_eth_def)
  have answered: "map_result (\<lambda>res. get_prop res ''result'') (range_responses ?blocks ?logs)
      = Inr (?blocks @ [Arr ?logs])"
    by (rule range_responses_results)
  have fields: "\<forall>k<length ?blocks. \<exists>n pn t pt. get_prop (?blocks ! k) ''number'' = Inr n \<and>
      parseInt16 n = Inr pn \<and> get_prop (?blocks ! k) ''timestamp'' = Inr t \<and>
      parseInt16 t = Inr pt"
    by (simp add: All_less_Suc example_block_props example_timestamp parseInt16_hex_Cons)
  have arrived: "\<forall>k<length ?blocks. get_prop (?blocks ! k) ''logs'' = Inr ((\<lambda>k. Undefined) k) \<and>
      accepts_logs ((\<lambda>k. Undefined) k)"
    by (simp add: All_less_Suc example_block_props accepts_logs_def)
  have consistent: "\<forall>l \<in> set ?logs. \<exists>n h h'. logBlockNumber l = Inr (Num n) \<and>
      10 \<le> n \<and> nat (n - 10) < length ?blocks \<and> get_prop l ''blockHash'' = Inr h \<and>
      get_prop (?blocks ! nat (n - 10)) ''hash'' = Inr h' \<and> strict_eq h h'"
    by (simp add: example_log_props example_block_props)
  from getBlocks_attaches_logs [OF sent answered fields arrived consistent]
  obtain result where r: "fst (getBlocks ?eth 10 12) = Inr result" "length result = 2"
    and all: "\<forall>k<length ?blocks.
       logs_of (result ! k) =
         (case Undefined of Arr xs \<Rightarrow> xs | _ \<Rightarrow> []) @
         [l \<leftarrow> ?logs. logBlockNumber l = Inr (Num (10 + int k))] \<and>
       ([l \<leftarrow> ?logs. logBlockNumber l = Inr (Num (10 + int k))] \<noteq> [] \<longrightarrow>
          obj_get (result ! k) ''logs'' = Arr (logs_of (result ! k)))"
    by auto
  from all have "obj_get (result ! 0) ''logs'' = Arr [example_log 10 ''0xaa'' ''y'']"
    "obj_get (result ! 1) ''logs'' = Arr [example_log 11 ''0xbb'' ''x'', example_log 11 ''0xbb'' ''z'']"
    by (simp_all add: All_less_Suc example_log_props)
  with r show ?thesis by blast
qed

section \<open>Rejections of \<^verbatim>\<open>getBlocks\<close>\<close>

text \<open>
  Claim C3. When some returned log has a \<^verbatim>\<open>blockHash\<close> that differs from the \<^verbatim>\<open>hash\<close> of
  the block at index \<^verbatim>\<open>parseInt16(log.blockNumber) - fromBlock\<close>, \<^verbatim>\<open>getBlocks\<close> is rejected:
  its outcome is an error and no list of blocks.
\<close>

theorem getBlocks_rejects_mismatch:
  assumes sent: "send_batch this (getBlocks_batch fromBlock toBlock) = Inr responses"
    and logs: "get_prop (last responses) ''result'' = Inr (Arr logs)"
    and l: "l \<in> set logs" "logBlockNumber l = Inr (Num n)"
    and index: "fromBlock \<le> n" "nat (n - fromBlock) < length responses - 1"
    and block: "get_prop (responses ! nat (n - fromBlock)) ''result'' = Inr block"
    and hashes: "get_prop l ''blockHash'' = Inr h" "get_prop block ''hash'' = Inr h'" "h \<noteq> h'"
  shows "\<exists>e. fst (getBlocks this fromBlock toBlock) = Inl e"
proof (cases "getBlocks_merge fromBlock responses")
  case (Inl e)
  then show ?thesis
    by (simp add: fst_getBlocks [OF sent])
next
  case (Inr result)
  then obtain results logs' nbs where ne: "responses \<noteq> []" and p:
    "length results = length responses - 1"
    "get_prop (last responses) ''result'' = Inr (Arr logs')"
    "\<And>k. k < length results \<Longrightarrow> get_prop (responses ! k) ''result'' = Inr (results ! k)"
    "map_result normalize_block results = Inr nbs"
    "merge_logs fromBlock logs' nbs = Inr result"
    by (rule getBlocks_merge_parts) blast
  let ?k = "nat (n - fromBlock)"
  from p(2) logs have "logs' = logs" by simp
  with p(5) l obtain k where k: "fits fromBlock nbs l k"
    by (auto simp: merge_logs_Inr_iff)
  with l(2) index have "k = ?k"
    by (simp add: fits_iff)
  from p(1,3) index block have "results ! ?k = block" by simp
  moreover from p(1,4) index have "normalize_block (results ! ?k) = Inr (nbs ! ?k)"
    by (simp add: map_result_nth)
  ultimately have "obj_get (nbs ! ?k) ''hash'' = h'"
    using hashes(2) normalize_block_frame [of block "nbs ! ?k" "''hash''"] by simp
  with k \<open>k = ?k\<close> hashes(1) have "strict_eq h h'"
    by (auto simp: fits_iff)
  with hashes(3) show ?thesis
    by (simp add: strict_eq_imp_eq)
qed

theorem getBlocks_rejects_mismatch_witness:
  "\<exists>e. fst (getBlocks
              (mock_eth (range_responses [example_block 10 ''0xaa'', example_block 11 ''0xbb'']
                 [example_log 11 ''0xbb'' ''x'', example_log 10 ''0xab'' ''y'']))
              10 12) = Inl e"
proof -
  let ?blocks = "[example_block 10 ''0xaa'', example_block 11 ''0xbb'']"
  let ?logs = "[example_log 11 ''0xbb'' ''x'', example_log 10 ''0xab'' ''y'']"
  let ?responses = "range_responses ?blocks ?logs"
  have sent: "send_batch (mock_eth ?responses) (getBlocks_batch 10 12) = Inr ?responses"
    by (simp add: mock_eth_def)
  have logs: "get_prop (last ?responses) ''result'' = Inr (Arr ?logs)"
    by (simp add: range_responses_def)
  have l: "example_log 10 ''0xab'' ''y'' \<in> set ?logs"
    "logBlockNumber (example_log 10 ''0xab'' ''y'') = Inr (Num 10)"
    by (simp_all add: example_log_props)
  have index: "(10::int) \<le> 10" "nat (10 - 10) < length ?responses - 1"
    by (simp_all add: range_responses_def)
  have block: "get_prop (?responses ! nat (10 - 10)) ''result'' = Inr (example_block 10 ''0xaa'')"
    by (simp add: range_responses_def)
  have hashes: "get_prop (example_log 10 ''0xab'' ''y'') ''blockHash'' = Inr (Str ''0xab'')"
    "get_prop (example_block 10 ''0xaa'') ''hash'' = Inr (Str ''0xaa'')"
    "Str ''0xab'' \<noteq> Str ''0xaa''"
    by (simp_all add: example_log_props example_block_props)
  show ?thesis
    by (rule getBlocks_rejects_mismatch [OF sent logs l index block hashes])
qed



section \<open>The blocks returned by \<^verbatim>\<open>getBlocksFromArray\<close>\<close>

text \<open>
  Claim C6. Let the transport answer the batch for \<open>n\<close> block numbers with \<open>2n\<close>
  responses. When, for each \<open>k < n\<close>, response \<open>2k\<close> carries a block whose number and
  timestamp can be parsed and response \<open>2k + 1\<close> can be read, \<^verbatim>\<open>getBlocksFromArray\<close>
  returns \<open>n\<close> blocks, the \<open>k\<close>-th being the block of response \<open>2k\<close> with the result of
  response \<open>2k + 1\<close> as its \<^verbatim>\<open>logs\<close>. No hash is compared: the condition does not
  mention one, every other property of the block, its hash included, is returned as it
  came, and the only rejection after the transport has answered is a \<^verbatim>\<open>TypeError\<close>.
\<close>

theorem getBlocksFromArray_pairs:
  assumes sent: "send_batch this (getBlocksFromArray_batch blockNumbers) = Inr responses"
    and len: "length responses = 2 * length blockNumbers"
  shows "((\<forall>k<length blockNumbers. \<exists>block n pn t pt logs.
             get_prop (responses ! (2 * k)) ''result'' = Inr block \<and>
             get_prop block ''number'' = Inr n \<and> parseInt16 n = Inr pn \<and>
             get_prop block ''timestamp'' = Inr t \<and> parseInt16 t = Inr pt \<and>
             get_prop (responses ! (2 * k + 1)) ''result'' = Inr logs) \<longrightarrow>
          (\<exists>result. fst (getBlocksFromArray this blockNumbers) = Inr result \<and>
             length result = length blockNumbers \<and>
             (\<forall>k<length blockNumbers. \<exists>block.
                get_prop (responses ! (2 * k)) ''result'' = Inr block \<and>
                get_prop (responses ! (2 * k + 1)) ''result'' = Inr (obj_get (result ! k) ''logs'') \<and>
                (\<exists>n. get_prop block ''number'' = Inr n \<and>
                     parseInt16 n = Inr (obj_get (result ! k) ''number'')) \<and>
                (\<exists>t. get_prop block ''timestamp'' = Inr t \<and>
                     parseInt16 t = Inr (obj_get (result ! k) ''timestamp'')) \<and>
                (\<forall>key. key \<notin> {''number'', ''timestamp'', ''logs''} \<longrightarrow>
                     get_prop block key = Inr (obj_get (result ! k) key)))))
       \<and> (\<forall>e. fst (getBlocksFromArray this blockNumbers) = Inl e \<longrightarrow> e = TypeError)"
proof (intro conjI impI allI)
  assume readable: "\<forall>k<length blockNumbers. \<exists>block n pn t pt logs.
             get_prop (responses ! (2 * k)) ''result'' = Inr block \<and>
             get_prop block ''number'' = Inr n \<and> parseInt16 n = Inr pn \<and>
             get_prop block ''timestamp'' = Inr t \<and> parseInt16 t = Inr pt \<and>
             get_prop (responses ! (2 * k + 1)) ''result'' = Inr logs"
  have "\<exists>b. paired_block (responses ! (2 * k)) (responses ! (2 * k + 1)) = Inr b"
    if "k < length blockNumbers" for k
  proof -
    from readable that obtain block n pn t pt logs where r:
      "get_prop (responses ! (2 * k)) ''result'' = Inr block"
      "get_prop block ''number'' = Inr n" "parseInt16 n = Inr pn"
      "get_prop block ''timestamp'' = Inr t" "parseInt16 t = Inr pt"
      "get_prop (responses ! (2 * k + 1)) ''result'' = Inr logs"
      by blast
    from r(2) obtain ob where "to_object block = Inr ob"
      by (cases block) auto
    with r show ?thesis
      by (simp add: paired_block_Inr_iff)
  qed
  then obtain f where f: "\<And>k. k < length blockNumbers \<Longrightarrow>
      paired_block (responses ! (2 * k)) (responses ! (2 * k + 1)) = Inr (f k)"
    by metis
  let ?result = "map f [0..<length blockNumbers]"
  have "getBlocksFromArray_merge responses [] = Inr ?result"
    using f len by (simp add: getBlocksFromArray_merge_Inr_iff)
  moreover have "\<forall>k<length blockNumbers. \<exists>block.
                get_prop (responses ! (2 * k)) ''result'' = Inr block \<and>
                get_prop (responses ! (2 * k + 1)) ''result'' = Inr (obj_get (?result ! k) ''logs'') \<and>
                (\<exists>n. get_prop block ''number'' = Inr n \<and>
                     parseInt16 n = Inr (obj_get (?result ! k) ''number'')) \<and>
                (\<exists>t. get_prop block ''timestamp'' = Inr t \<and>
                     parseInt16 t = Inr (obj_get (?result ! k) ''timestamp'')) \<and>
                (\<forall>key. key \<notin> {''number'', ''timestamp'', ''logs''} \<longrightarrow>
                     get_prop block key = Inr (obj_get (?result ! k) key))"
    using paired_block_frame [OF f] by simp
  ultimately show "\<exists>result. fst (getBlocksFromArray this blockNumbers) = Inr result \<and>
             length result = length blockNumbers \<and>
             (\<forall>k<length blockNumbers. \<exists>block.
                get_prop (responses ! (2 * k)) ''result'' = Inr block \<and>
                get_prop (responses ! (2 * k + 1)) ''result'' = Inr (obj_get (result ! k) ''logs'') \<and>
                (\<exists>n. get_prop block ''number'' = Inr n \<and>
                     parseInt16 n = Inr (obj_get (result ! k) ''number'')) \<and>
                (\<exists>t. get_prop block ''timestamp'' = Inr t \<and>
                     parseInt16 t = Inr (obj_get (result ! k) ''timestamp'')) \<and>
                (\<forall>key. key \<notin> {''number'', ''timestamp'', ''logs''} \<longrightarrow>
                     get_prop block key = Inr (obj_get (result ! k) key)))"
    unfolding fst_getBlocksFromArray [OF sent]
    by (intro exI [of _ ?result]) simp
next
  fix e
  assume "fst (getBlocksFromArray this blockNumbers) = Inl e"
  then show "e = TypeError"
    by (simp add: fst_getBlocksFromArray [OF sent] getBlocksFromArray_merge_TypeError)
qed

theorem getBlocksFromArray_pairs_witness:
  "\<exists>result.
     fst (getBlocksFromArray
            (mock_eth [response (example_block 10 ''0xaa''),
                       response (Arr [example_log 10 ''0xff'' ''x'']),
                       response (example_block 11 ''0xbb''),
                       response (Arr [])])
            [10, 11]) = Inr result \<and>
     length result = 2 \<and>
     obj_get (result ! 0) ''hash'' = Str ''0xaa'' \<and>
     obj_get (result ! 0) ''logs'' = Arr [example_log 10 ''0xff'' ''x''] \<and>
     obj_get (result ! 1) ''logs'' = Arr []"
proof -
  let ?responses = "[response (example_block 10 ''0xaa''),
                     response (Arr [example_log 10 ''0xff'' ''x'']),
                     response (example_block 11 ''0xbb''),
                     response (Arr [])]"
  have sent: "send_batch (mock_eth ?responses) (getBlocksFromArray_batch [10, 11]) = Inr ?responses"
    by (simp add: mock_eth_def)
  have len: "length ?responses = 2 * length [10, 11 :: int]" by simp
  have readable: "\<forall>k<length [10, 11 :: int]. \<exists>block n pn t pt logs.
      get_prop (?responses ! (2 * k)) ''result'' = Inr block \<and>
      get_prop block ''number'' = Inr n \<and> parseInt16 n = Inr pn \<and>
      get_prop block ''timestamp'' = Inr t \<and> parseInt16 t = Inr pt \<and>
      get_prop (?responses ! (2 * k + 1)) ''result'' = Inr logs"
    by (simp add: All_less_Suc example_block_props example_timestamp parseInt16_hex_Cons)
  from mp [OF conjunct1 [OF getBlocksFromArray_pairs [OF sent len]] readable]
  obtain result where r:
    "fst (getBlocksFromArray (mock_eth ?responses) [10, 11]) = Inr result \<and>
     length result = length [10, 11 :: int] \<and>
     (\<forall>k<length [10, 11 :: int]. \<exists>block.
        get_prop (?responses ! (2 * k)) ''result'' = Inr block \<and>
        get_prop (?responses ! (2 * k + 1)) ''result'' = Inr (obj_get (result ! k) ''logs'') \<and>
        (\<exists>n. get_prop block ''number'' = Inr n \<and>
             parseInt16 n = Inr (obj_get (result ! k) ''number'')) \<and>
        (\<exists>t. get_prop block ''timestamp'' = Inr t \<and>
             parseInt16 t = Inr (obj_get (result ! k) ''timestamp'')) \<and>
        (\<forall>key. key \<notin> {''number'', ''timestamp'', ''logs''} \<longrightarrow>
             get_prop block key = Inr (obj_get (result ! k) key)))" ..
  note r1 = conjunct1 [OF r] and r2 = conjunct1 [OF conjunct2 [OF r]]
    and all = conjunct2 [OF conjunct2 [OF r], rule_format]
  have k0: "0 < length [10, 11 :: int]" and k1: "1 < length [10, 11 :: int]"
    by simp_all
  from all [OF k0] obtain block where b:
    "get_prop (?responses ! (2 * 0)) ''result'' = Inr block"
    "get_prop (?responses ! (2 * 0 + 1)) ''result'' = Inr (obj_get (result ! 0) ''logs'')"
    and frame: "\<forall>key. key \<notin> {''number'', ''timestamp'', ''logs''} \<longrightarrow>
             get_prop block key = Inr (obj_get (result ! 0) key)"
    by blast
  from b(1) have "block = example_block 10 ''0xaa''" by simp
  with frame [rule_format, of "''hash''"] have "obj_get (result ! 0) ''hash'' = Str ''0xaa''"
    by (simp add: example_block_props)
  moreover from b(2) have "obj_get (result ! 0) ''logs'' = Arr [example_log 10 ''0xff'' ''x'']"
    by simp
  moreover from all [OF k1] have "obj_get (result ! 1) ''logs'' = Arr []"
    by auto
  ultimately show ?thesis
    using r1 r2 by (intro exI [of _ result]) simp
qed

section \<open>What the operations leave untouched\<close>

text \<open>
  Claim C8. In a block returned by \<^verbatim>\<open>getBlocks\<close> or \<^verbatim>\<open>getBlocksFromArray\<close>, \<^verbatim>\<open>number\<close> and
  \<^verbatim>\<open>timestamp\<close> are the \<^verbatim>\<open>parseInt16\<close> of what the transport delivered, and every
  property other than \<^verbatim>\<open>number\<close>, \<^verbatim>\<open>timestamp\<close> and \<^verbatim>\<open>logs\<close> has the value the transport
  delivered. The logs of a block are values of the transport, not copies that differ:
  for \<^verbatim>\<open>getBlocks\<close> the logs the block arrived with followed by the returned logs of its
  index (and \<^verbatim>\<open>logs\<close> is as it arrived when there is none), for
  \<^verbatim>\<open>getBlocksFromArray\<close> the result of the paired response.
\<close>

theorem blocks_pass_through:
  "(send_batch this (getBlocks_batch fromBlock toBlock) = Inr responses \<longrightarrow>
    fst (getBlocks this fromBlock toBlock) = Inr result \<longrightarrow>
      (\<exists>logs. get_prop (last responses) ''result'' = Inr (Arr logs) \<and>
         length result = length responses - 1 \<and>
         (\<forall>k<length result. \<exists>block lv.
            get_prop (responses ! k) ''result'' = Inr block \<and>
            (\<exists>n. get_prop block ''number'' = Inr n \<and>
                 parseInt16 n = Inr (obj_get (result ! k) ''number'')) \<and>
            (\<exists>t. get_prop block ''timestamp'' = Inr t \<and>
                 parseInt16 t = Inr (obj_get (result ! k) ''timestamp'')) \<and>
            (\<forall>key. key \<notin> {''number'', ''timestamp'', ''logs''} \<longrightarrow>
                 get_prop block key = Inr (obj_get (result ! k) key)) \<and>
            get_prop block ''logs'' = Inr lv \<and>
            logs_of (result ! k) =
              (case lv of Arr xs \<Rightarrow> xs | _ \<Rightarrow> []) @
              [l \<leftarrow> logs. logBlockNumber l = Inr (Num (fromBlock + int k))] \<and>
            ([l \<leftarrow> logs. logBlockNumber l = Inr (Num (fromBlock + int k))] = [] \<longrightarrow>
               obj_get (result ! k) ''logs'' = lv))))
   \<and>
   (send_batch this (getBlocksFromArray_batch blockNumbers) = Inr responses' \<longrightarrow>
    fst (getBlocksFromArray this blockNumbers) = Inr result' \<longrightarrow>
      length result' = length responses' div 2 \<and>
      (\<forall>k<length result'. \<exists>block.
         get_prop (responses' ! (2 * k)) ''result'' = Inr block \<and>
         get_prop (responses' ! (2 * k + 1)) ''result'' = Inr (obj_get (result' ! k) ''logs'') \<and>
         (\<exists>n. get_prop block ''number'' = Inr n \<and>
              parseInt16 n = Inr (obj_get (result' ! k) ''number'')) \<and>
         (\<exists>t. get_prop block ''timestamp'' = Inr t \<and>
              parseInt16 t = Inr (obj_get (result' ! k) ''timestamp'')) \<and>
         (\<forall>key. key \<notin> {''number'', ''timestamp'', ''logs''} \<longrightarrow>
              get_prop block key = Inr (obj_get (result' ! k) key))))"
proof (intro conjI impI)
  assume sent: "send_batch this (getBlocks_batch fromBlock toBlock) = Inr responses"
    and ok: "fst (getBlocks this fromBlock toBlock) = Inr result"
  then have "getBlocks_merge fromBlock responses = Inr result"
    by (simp add: fst_getBlocks)
  then obtain results logs nbs where ne: "responses \<noteq> []" and p:
    "length results = length responses - 1"
    "get_prop (last responses) ''result'' = Inr (Arr logs)"
    "\<And>k. k < length results \<Longrightarrow> get_prop (responses ! k) ''result'' = Inr (results ! k)"
    "map_result normalize_block results = Inr nbs"
    "merge_logs fromBlock logs nbs = Inr result"
    by (rule getBlocks_merge_parts) blast
  let ?F = "\<lambda>k. [l \<leftarrow> logs. logBlockNumber l = Inr (Num (fromBlock + int k))]"
  from p(4) have nlen: "length nbs = length results"
    by (simp add: map_result_nth)
  from p(5) have result: "result = map (\<lambda>k. add_logs (nbs ! k) (?F k)) [0..<length nbs]"
    by (simp add: merge_logs_Inr_iff)
  have "\<exists>block lv.
            get_prop (responses ! k) ''result'' = Inr block \<and>
            (\<exists>n. get_prop block ''number'' = Inr n \<and>
                 parseInt16 n = Inr (obj_get (result ! k) ''number'')) \<and>
            (\<exists>t. get_prop block ''timestamp'' = Inr t \<and>
                 parseInt16 t = Inr (obj_get (result ! k) ''timestamp'')) \<and>
            (\<forall>key. key \<notin> {''number'', ''timestamp'', ''logs''} \<longrightarrow>
                 get_prop block key = Inr (obj_get (result ! k) key)) \<and>
            get_prop block ''logs'' = Inr lv \<and>
            logs_of (result ! k) = (case lv of Arr xs \<Rightarrow> xs | _ \<Rightarrow> []) @ ?F k \<and>
            (?F k = [] \<longrightarrow> obj_get (result ! k) ''logs'' = lv)"
    if "k < length result" for k
  proof -
    from that result nlen have k: "k < length results" by simp
    with p(4) have nb: "normalize_block (results ! k) = Inr (nbs ! k)"
      by (simp add: map_result_nth)
    from result k nlen have rk: "result ! k = add_logs (nbs ! k) (?F k)"
      by simp
    have "get_prop (results ! k) ''logs'' = Inr (obj_get (nbs ! k) ''logs'')"
      using normalize_block_frame [OF nb, of "''logs''"] by simp
    moreover have "\<forall>key. key \<notin> {''number'', ''timestamp'', ''logs''} \<longrightarrow>
        get_prop (results ! k) key = Inr (obj_get (result ! k) key)"
      using normalize_block_frame [OF nb] by (simp add: rk obj_get_add_logs)
    moreover have "logs_of (result ! k) =
        (case obj_get (nbs ! k) ''logs'' of Arr xs \<Rightarrow> xs | _ \<Rightarrow> []) @ ?F k"
      by (simp add: rk logs_of_add_logs) (simp add: logs_of_def)
    moreover have "?F k = [] \<longrightarrow> obj_get (result ! k) ''logs'' = obj_get (nbs ! k) ''logs''"
      by (simp add: rk obj_get_add_logs)
    ultimately show ?thesis
      using p(3) [OF k] normalize_block_number [OF nb] normalize_block_timestamp [OF nb]
      by (simp add: rk obj_get_add_logs)
  qed
  with p(1,2) result nlen show "\<exists>logs. get_prop (last responses) ''result'' = Inr (Arr logs) \<and>
         length result = length responses - 1 \<and>
         (\<forall>k<length result. \<exists>block lv.
            get_prop (responses ! k) ''result'' = Inr block \<and>
            (\<exists>n. get_prop block ''number'' = Inr n \<and>
                 parseInt16 n = Inr (obj_get (result ! k) ''number'')) \<and>
            (\<exists>t. get_prop block ''timestamp'' = Inr t \<and>
                 parseInt16 t = Inr (obj_get (result ! k) ''timestamp'')) \<and>
            (\<forall>key. key \<notin> {''number'', ''timestamp'', ''logs''} \<longrightarrow>
                 get_prop block key = Inr (obj_get (result ! k) key)) \<and>
            get_prop block ''logs'' = Inr lv \<and>
            logs_of (result ! k) =
              (case lv of Arr xs \<Rightarrow> xs | _ \<Rightarrow> []) @
              [l \<leftarrow> logs. logBlockNumber l = Inr (Num (fromBlock + int k))] \<and>
            ([l \<leftarrow> logs. logBlockNumber l = Inr (Num (fromBlock + int k))] = [] \<longrightarrow>
               obj_get (result ! k) ''logs'' = lv))"
    by (intro exI [of _ logs]) simp
next
  assume sent: "send_batch this (getBlocksFromArray_batch blockNumbers) = Inr responses'"
    and ok: "fst (getBlocksFromArray this blockNumbers) = Inr result'"
  then have m: "getBlocksFromArray_merge responses' [] = Inr result'"
    by (simp add: fst_getBlocksFromArray)
  then show "length result' = length responses' div 2"
    by (simp add: getBlocksFromArray_merge_Inr_iff)
  from m have "paired_block (responses' ! (2 * k)) (responses' ! (2 * k + 1)) = Inr (result' ! k)"
    if "k < length result'" for k
    using that by (simp add: getBlocksFromArray_merge_Inr_iff)
  then show "\<forall>k<length result'. \<exists>block.
         get_prop (responses' ! (2 * k)) ''result'' = Inr block \<and>
         get_prop (responses' ! (2 * k + 1)) ''result'' = Inr (obj_get (result' ! k) ''logs'') \<and>
         (\<exists>n. get_prop block ''number'' = Inr n \<and>
              parseInt16 n = Inr (obj_get (result' ! k) ''number'')) \<and>
         (\<exists>t. get_prop block ''timestamp'' = Inr t \<and>
              parseInt16 t = Inr (obj_get (result' ! k) ''timestamp'')) \<and>
         (\<forall>key. key \<notin> {''number'', ''timestamp'', ''logs''} \<longrightarrow>
              get_prop block key = Inr (obj_get (result' ! k) key))"
    using paired_block_frame by blast
qed

theorem blocks_pass_through_witness:
  "(\<exists>result.
      fst (getBlocks
             (mock_eth (range_responses [example_block 10 ''0xaa'', example_block 11 ''0xbb'']
                [example_log 11 ''0xbb'' ''x'', example_log 10 ''0xaa'' ''y'',
                 example_log 11 ''0xbb'' ''z'']))
             10 12) = Inr result \<and>
      obj_get (result ! 0) ''hash'' = Str ''0xaa'' \<and>
      obj_get (result ! 0) ''miner'' = Str ''0xabc'') \<and>
   (\<exists>result.
      fst (getBlocksFromArray
             (mock_eth [response (example_block 10 ''0xaa''),
                        response (Arr [example_log 10 ''0xff'' ''x'']),
                        response (example_block 11 ''0xbb''),
                        response (Arr [])])
             [10, 11]) = Inr result \<and>
      obj_get (result ! 1) ''hash'' = Str ''0xbb'' \<and>
      obj_get (result ! 1) ''miner'' = Str ''0xabc'')"
proof -
  let ?blocks = "[example_block 10 ''0xaa'', example_block 11 ''0xbb'']"
  let ?logs = "[example_log 11 ''0xbb'' ''x'', example_log 10 ''0xaa'' ''y'',
                example_log 11 ''0xbb'' ''z'']"
  let ?responses = "range_responses ?blocks ?logs"
  let ?pairs = "[response (example_block 10 ''0xaa''), response (Arr [example_log 10 ''0xff'' ''x'']),
                 response (example_block 11 ''0xbb''), response (Arr [])]"
  have sent: "send_batch (mock_eth ?responses) (getBlocks_batch 10 12) = Inr ?responses"
    by (simp add: mock_eth_def)
  obtain result where ok: "fst (getBlocks (mock_eth ?responses) 10 12) = Inr result"
    and two: "length result = 2"
    unfolding fst_getBlocks [OF sent] example_merge by simp
  have sent': "send_batch (mock_eth ?pairs) (getBlocksFromArray_batch [10, 11]) = Inr ?pairs"
    by (simp add: mock_eth_def)
  obtain result' where ok': "fst (getBlocksFromArray (mock_eth ?pairs) [10, 11]) = Inr result'"
    and two': "length result' = 2"
    unfolding fst_getBlocksFromArray [OF sent'] example_pairs_merge by simp
  from mp [OF mp [OF conjunct1
    [OF blocks_pass_through [of "mock_eth ?responses" 10 12 ?responses result]] sent] ok]
  have "\<exists>logs. get_prop (last ?responses) ''result'' = Inr (Arr logs) \<and>
         length result = length ?responses - 1 \<and>
         (\<forall>k<length result. \<exists>block lv.
            get_prop (?responses ! k) ''result'' = Inr block \<and>
            (\<exists>n. get_prop block ''number'' = Inr n \<and>
                 parseInt16 n = Inr (obj_get (result ! k) ''number'')) \<and>
            (\<exists>t. get_prop block ''timestamp'' = Inr t \<and>
                 parseInt16 t = Inr (obj_get (result ! k) ''timestamp'')) \<and>
            (\<forall>key. key \<notin> {''number'', ''timestamp'', ''logs''} \<longrightarrow>
                 get_prop block key = Inr (obj_get (result ! k) key)) \<and>
            get_prop block ''logs'' = Inr lv \<and>
            logs_of (result ! k) =
              (case lv of Arr xs \<Rightarrow> xs | _ \<Rightarrow> []) @
              [l \<leftarrow> logs. logBlockNumber l = Inr (Num (10 + int k))] \<and>
            ([l \<leftarrow> logs. logBlockNumber l = Inr (Num (10 + int k))] = [] \<longrightarrow>
               obj_get (result ! k) ''logs'' = lv))"
    .
  with two obtain block where b: "get_prop (?responses ! 0) ''result'' = Inr block"
    and frame: "\<forall>key. key \<notin> {''number'', ''timestamp'', ''logs''} \<longrightarrow>
                 get_prop block key = Inr (obj_get (result ! 0) key)"
    by (metis zero_less_numeral)
  from b have "block = example_block 10 ''0xaa''"
    by (simp add: range_responses_def)
  with frame [rule_format, of "''hash''"] frame [rule_format, of "''miner''"]
  have first: "obj_get (result ! 0) ''hash'' = Str ''0xaa''" "obj_get (result ! 0) ''miner'' = Str ''0xabc''"
    by (simp_all add: example_block_def)
  from conjunct2 [OF mp [OF mp [OF conjunct2
    [OF blocks_pass_through [of "mock_eth ?pairs" _ _ _ _ "[10, 11]" ?pairs result']] sent'] ok']]
  have "\<forall>k<length result'. \<exists>block.
         get_prop (?pairs ! (2 * k)) ''result'' = Inr block \<and>
         get_prop (?pairs ! (2 * k + 1)) ''result'' = Inr (obj_get (result' ! k) ''logs'') \<and>
         (\<exists>n. get_prop block ''number'' = Inr n \<and>
              parseInt16 n = Inr (obj_get (result' ! k) ''number'')) \<and>
         (\<exists>t. get_prop block ''timestamp'' = Inr t \<and>
              parseInt16 t = Inr (obj_get (result' ! k) ''timestamp'')) \<and>
         (\<forall>key. key \<notin> {''number'', ''timestamp'', ''logs''} \<longrightarrow>
              get_prop block key = Inr (obj_get (result' ! k) key))"
    .
  with two' obtain block' where b': "get_prop (?pairs ! (2 * 1)) ''result'' = Inr block'"
    and frame': "\<forall>key. key \<notin> {''number'', ''timestamp'', ''logs''} \<longrightarrow>
                 get_prop block' key = Inr (obj_get (result' ! 1) key)"
    by (metis one_less_numeral_iff semiring_norm(76))
  from b' have "block' = example_block 11 ''0xbb''"
    by simp
  with frame' [rule_format, of "''hash''"] frame' [rule_format, of "''miner''"]
  have second: "obj_get (result' ! 1) ''hash'' = Str ''0xbb''" "obj_get (result' ! 1) ''miner'' = Str ''0xabc''"
    by (simp_all add: example_block_def)
  from ok first ok' second show ?thesis by blast
qed

end
